theory Spec2Isabelle
  imports Main "HOL-Library.List_Lexorder" "HOL-Library.Char_ord" "HOL-Library.AList"
begin

section \<open>Data model\<close>

text \<open>
  The structures of package \<open>chiv1\<close> as \<open>pkg/parser/normalizers.go\<close> uses them. Only the
  fields that the normalizers read or write are kept. Where two Go structs have a field of
  the same name, the record field carries the owner as a prefix (\<open>shard_ReplicasCount\<close>,
  \<open>cluster_Deployment\<close>, ...).

  A Go \<open>map[string]string\<close> is an association list with pairwise distinct keys: the list
  order stands for one of the orders in which \<open>range\<close> may visit the map (Go leaves that
  order unspecified). The nil map and the empty map are both \<open>[]\<close>: the code only takes
  \<open>len\<close>, ranges and reads, which do not tell them apart.

  A Go \<open>int\<close> is an \<open>int\<close> here. The only arithmetic of the code adds one to a counter once
  per replica and subtracts one again; a slice has fewer than \<open>2 ^ 63\<close> elements, so no
  value wraps around.
\<close>

record ChiDeploymentZone =
  MatchLabels :: "(string \<times> string) list"

record ChiDeployment =
  PodTemplate :: string
  VolumeClaimTemplate :: string
  Zone :: ChiDeploymentZone
  Scenario :: string
  Fingerprint :: string
  Index :: int

record ChiClusterLayoutShardReplica =
  replica_Deployment :: ChiDeployment

record ChiClusterLayoutShard =
  DefinitionType :: string
  shard_ReplicasCount :: int
  InternalReplication :: string
  shard_Deployment :: ChiDeployment
  Replicas :: "ChiClusterLayoutShardReplica list"

record ChiClusterLayout =
  Type :: string
  ShardsCount :: int
  ReplicasCount :: int
  Shards :: "ChiClusterLayoutShard list"

record ChiCluster =
  Layout :: ChiClusterLayout
  cluster_Deployment :: ChiDeployment

record ChiDefaults =
  ReplicasUseFQDN :: int
  defaults_Deployment :: ChiDeployment

record ChiConfiguration =
  Clusters :: "ChiCluster list"

record ChiSpec =
  Defaults :: ChiDefaults
  Configuration :: ChiConfiguration

record ClickHouseInstallation =
  Namespace :: string
  Name :: string
  Spec :: ChiSpec

text \<open>
  What the normalizers take from outside the file, a parameter of every function that uses
  any of it. First the package-level string constants that they compare with and assign,
  whose declarations are not part of the file. Then the two largest lengths that
  \<open>make\<close> accepts for a slice of shards and for a slice of replicas: Go's \<open>makeslice\<close>
  panics when the length times the size of an element exceeds the platform's bound on an
  allocation, and neither the element types nor the platform are fixed by the file.
\<close>

record parser_constants =
  clusterLayoutTypeStandard :: string
  clusterLayoutTypeAdvanced :: string
  shardDefinitionTypeReplicasCount :: string
  shardInternalReplicationDisabled :: string
  stringTrue :: string
  stringFalse :: string
  deploymentScenarioDefault :: string
  maxLenShards :: int
  maxLenReplicas :: int

text \<open>\<open>NamedNumber\<close> is a Go \<open>map[string]int\<close>; a missing key reads as \<open>0\<close>.\<close>

type_synonym NamedNumber = "string \<rightharpoonup> int"

definition named_number_get :: "NamedNumber \<Rightarrow> string \<Rightarrow> int" where
  "named_number_get m k = (case m k of None \<Rightarrow> 0 | Some n \<Rightarrow> n)"

text \<open>Run-time panics of the Go code are values.\<close>

datatype panic = MakesliceLenOutOfRange | IndexOutOfRange

text \<open>
  The zero values that \<open>make([]T, n)\<close> fills a fresh slice with, and \<open>make\<close> itself, which
  panics (\<open>makeslice: len out of range\<close>) on a negative length and on a length above the
  largest one it accepts for the element type, \<open>limit\<close>. Whether the machine holds the
  memory for a length that \<open>make\<close> accepts is not part of the model.
\<close>

definition zero_ChiDeployment :: ChiDeployment where
  "zero_ChiDeployment =
     \<lparr>PodTemplate = [], VolumeClaimTemplate = [], Zone = \<lparr>MatchLabels = []\<rparr>,
      Scenario = [], Fingerprint = [], Index = 0\<rparr>"

definition zero_ChiClusterLayoutShardReplica :: ChiClusterLayoutShardReplica where
  "zero_ChiClusterLayoutShardReplica = \<lparr>replica_Deployment = zero_ChiDeployment\<rparr>"

definition zero_ChiClusterLayoutShard :: ChiClusterLayoutShard where
  "zero_ChiClusterLayoutShard =
     \<lparr>DefinitionType = [], shard_ReplicasCount = 0, InternalReplication = [],
      shard_Deployment = zero_ChiDeployment, Replicas = []\<rparr>"

definition make_slice :: "'a \<Rightarrow> int \<Rightarrow> int \<Rightarrow> panic + 'a list" where
  "make_slice zero limit n =
     (if n < 0 \<or> limit < n then Inl MakesliceLenOutOfRange
      else Inr (replicate (nat n) zero))"

section \<open>Deployment merge\<close>

text \<open>
  \<open>zoneCopyFrom\<close>: \<open>tmp\<close> starts empty and receives \<open>tmp[k] = v\<close> for every entry of the
  source; \<open>AList.update\<close> is that assignment. A nil \<open>src\<close> pointer is \<open>None\<close>.
\<close>

definition zoneCopyFrom :: "ChiDeploymentZone \<Rightarrow> ChiDeploymentZone option \<Rightarrow> ChiDeploymentZone" where
  "zoneCopyFrom dst src =
     (case src of
        None \<Rightarrow> dst
      | Some s \<Rightarrow>
          dst\<lparr>MatchLabels := fold (\<lambda>(k, v) tmp. AList.update k v tmp) (MatchLabels s) []\<rparr>)"

definition deploymentMergeFrom :: "ChiDeployment \<Rightarrow> ChiDeployment option \<Rightarrow> ChiDeployment" where
  "deploymentMergeFrom dst src =
     (case src of
        None \<Rightarrow> dst
      | Some s \<Rightarrow>
          (let d1 = (if PodTemplate dst = [] then dst\<lparr>PodTemplate := PodTemplate s\<rparr> else dst);
               d2 = (if VolumeClaimTemplate d1 = []
                     then d1\<lparr>VolumeClaimTemplate := VolumeClaimTemplate s\<rparr> else d1);
               d3 = (if length (MatchLabels (Zone d2)) = 0
                     then d2\<lparr>Zone := zoneCopyFrom (Zone d2) (Some (Zone s))\<rparr> else d2)
           in if Scenario d3 = [] then d3\<lparr>Scenario := Scenario s\<rparr> else d3))"

section \<open>Fingerprinting\<close>

text \<open>\<open>strings.Join\<close> of the Go standard library.\<close>

fun strings_Join :: "string list \<Rightarrow> string \<Rightarrow> string" where
  "strings_Join [] sep = []"
| "strings_Join [x] sep = x"
| "strings_Join (x # y # ys) sep = x @ sep @ strings_Join (y # ys) sep"

text \<open>
  \<open>deploymentGenerateString\<close>: the keys are collected in the order \<open>range\<close> yields them and
  sorted by \<open>sort.Strings\<close> (bytewise lexicographic, the order of \<open>string\<close> here); reading a
  key the map does not hold gives the empty string.
\<close>

definition match_label :: "(string \<times> string) list \<Rightarrow> string \<Rightarrow> string" where
  "match_label m key = (case map_of m key of None \<Rightarrow> [] | Some v \<Rightarrow> v)"

definition deploymentGenerateString :: "ChiDeployment \<Rightarrow> string" where
  "deploymentGenerateString d =
     (let keys = sort (map fst (MatchLabels (Zone d)));
          a = [PodTemplate d @ ''::'' @ VolumeClaimTemplate d @ ''::'' @ Scenario d @ ''::'']
              @ map (\<lambda>key. key @ ''='' @ match_label (MatchLabels (Zone d)) key) keys
      in strings_Join a ''::'')"

text \<open>
  \<open>deploymentGenerateFingerprint\<close>: \<open>H\<close> stands for the library code
  \<open>hex.EncodeToString\<close> of the \<open>crypto/sha1\<close> digest; every statement below holds for
  every \<open>H\<close>.
\<close>

definition deploymentGenerateFingerprint ::
  "(string \<Rightarrow> string) \<Rightarrow> ClickHouseInstallation \<Rightarrow> ChiDeployment \<Rightarrow> string" where
  "deploymentGenerateFingerprint H chi d =
     H (Namespace chi @ Name chi @ deploymentGenerateString d)"

section \<open>Layout normalization\<close>

definition normalizeClusterStandardLayoutCounts :: "ChiClusterLayout \<Rightarrow> ChiClusterLayout" where
  "normalizeClusterStandardLayoutCounts layout =
     (let l1 = (if ShardsCount layout = 0 then layout\<lparr>ShardsCount := 1\<rparr> else layout)
      in if ReplicasCount l1 = 0 then l1\<lparr>ReplicasCount := 1\<rparr> else l1)"

definition normalizeClusterAdvancedLayoutShardsInternalReplication ::
  "parser_constants \<Rightarrow> ChiClusterLayoutShard \<Rightarrow> ChiClusterLayoutShard" where
  "normalizeClusterAdvancedLayoutShardsInternalReplication K shard =
     (if InternalReplication shard = shardInternalReplicationDisabled K
      then shard\<lparr>InternalReplication := stringFalse K\<rparr>
      else shard\<lparr>InternalReplication := stringTrue K\<rparr>)"

text \<open>
  The body of the loop of \<open>normalizeSpecConfigurationClustersLayoutShardsReplicas\<close> for one
  replica: merge, fingerprint, count, index.
\<close>

definition normalizeReplica ::
  "(string \<Rightarrow> string) \<Rightarrow> ClickHouseInstallation \<Rightarrow> ChiDeployment \<Rightarrow>
   ChiClusterLayoutShardReplica \<Rightarrow> NamedNumber \<Rightarrow> ChiClusterLayoutShardReplica \<times> NamedNumber" where
  "normalizeReplica H chi shardDeployment replica deploymentNumber =
     (let d = deploymentMergeFrom (replica_Deployment replica) (Some shardDeployment);
          fingerprint = deploymentGenerateFingerprint H chi d;
          deploymentNumber' =
            deploymentNumber(fingerprint \<mapsto> named_number_get deploymentNumber fingerprint + 1);
          index = named_number_get deploymentNumber' fingerprint - 1
      in (replica\<lparr>replica_Deployment := d\<lparr>Fingerprint := fingerprint, Index := index\<rparr>\<rparr>,
          deploymentNumber'))"

function replicasLoop ::
  "(string \<Rightarrow> string) \<Rightarrow> ClickHouseInstallation \<Rightarrow> int \<Rightarrow> ChiClusterLayoutShard \<Rightarrow>
   NamedNumber \<Rightarrow> panic + ChiClusterLayoutShard \<times> NamedNumber" where
  "replicasLoop H chi replicaIndex shard deploymentNumber =
     (if replicaIndex < shard_ReplicasCount shard then
        (if replicaIndex < 0 \<or> int (length (Replicas shard)) \<le> replicaIndex
         then Inl IndexOutOfRange
         else
           (case normalizeReplica H chi (shard_Deployment shard)
                   (Replicas shard ! nat replicaIndex) deploymentNumber of
              (replica', deploymentNumber') \<Rightarrow>
                replicasLoop H chi (replicaIndex + 1)
                  (shard\<lparr>Replicas := (Replicas shard)[nat replicaIndex := replica']\<rparr>)
                  deploymentNumber'))
      else Inr (shard, deploymentNumber))"
  by pat_completeness auto
termination
  by (relation "measure (\<lambda>(H, chi, i, shard, dn). nat (shard_ReplicasCount shard - i))") auto

declare replicasLoop.simps [simp del]

definition normalizeSpecConfigurationClustersLayoutShardsReplicas ::
  "(string \<Rightarrow> string) \<Rightarrow> ClickHouseInstallation \<Rightarrow> ChiClusterLayoutShard \<Rightarrow> NamedNumber \<Rightarrow>
   panic + ChiClusterLayoutShard \<times> NamedNumber" where
  "normalizeSpecConfigurationClustersLayoutShardsReplicas H chi shard deploymentNumber =
     replicasLoop H chi 0 shard deploymentNumber"

text \<open>
  The body of the loop over the shards of a \<open>Standard\<close> layout (lines 71 to 84), and the
  loop itself, which counts \<open>shardIndex\<close> up to \<open>cluster.Layout.ShardsCount\<close>. Of the
  cluster the body reads \<open>cluster.Layout.ReplicasCount\<close> only.
\<close>

definition standardLayoutShard ::
  "(string \<Rightarrow> string) \<Rightarrow> parser_constants \<Rightarrow> ClickHouseInstallation \<Rightarrow> int \<Rightarrow>
   ChiClusterLayoutShard \<Rightarrow> NamedNumber \<Rightarrow> panic + ChiClusterLayoutShard \<times> NamedNumber" where
  "standardLayoutShard H K chi layoutReplicasCount shard deploymentNumber =
     (let shard1 = shard\<lparr>shard_ReplicasCount := layoutReplicasCount\<rparr>;
          shard2 = shard1\<lparr>InternalReplication := stringTrue K\<rparr>
      in case make_slice zero_ChiClusterLayoutShardReplica (maxLenReplicas K)
                  (shard_ReplicasCount shard2) of
           Inl e \<Rightarrow> Inl e
         | Inr rs \<Rightarrow>
             normalizeSpecConfigurationClustersLayoutShardsReplicas H chi
               (shard2\<lparr>Replicas := rs\<rparr>) deploymentNumber)"

function standardLoop ::
  "(string \<Rightarrow> string) \<Rightarrow> parser_constants \<Rightarrow> ClickHouseInstallation \<Rightarrow> int \<Rightarrow> ChiCluster \<Rightarrow>
   NamedNumber \<Rightarrow> panic + ChiCluster \<times> NamedNumber" where
  "standardLoop H K chi shardIndex cluster deploymentNumber =
     (if shardIndex < ShardsCount (Layout cluster) then
        (if shardIndex < 0 \<or> int (length (Shards (Layout cluster))) \<le> shardIndex
         then Inl IndexOutOfRange
         else
           (case standardLayoutShard H K chi (ReplicasCount (Layout cluster))
                   (Shards (Layout cluster) ! nat shardIndex) deploymentNumber of
              Inl e \<Rightarrow> Inl e
            | Inr (shard', deploymentNumber') \<Rightarrow>
                standardLoop H K chi (shardIndex + 1)
                  (cluster\<lparr>Layout := (Layout cluster)
                     \<lparr>Shards := (Shards (Layout cluster))[nat shardIndex := shard']\<rparr>\<rparr>)
                  deploymentNumber'))
      else Inr (cluster, deploymentNumber))"
  by pat_completeness auto
termination
  by (relation "measure (\<lambda>(H, K, chi, i, cluster, dn). nat (ShardsCount (Layout cluster) - i))")
    auto

declare standardLoop.simps [simp del]

text \<open>
  The body of the loop over the shards of an \<open>Advanced\<close> layout (lines 90 to 137), and the
  loop, a \<open>range\<close> over the indices of \<open>cluster.Layout.Shards\<close>.
\<close>

definition advancedLayoutShard ::
  "(string \<Rightarrow> string) \<Rightarrow> parser_constants \<Rightarrow> ClickHouseInstallation \<Rightarrow> ChiDeployment \<Rightarrow>
   ChiClusterLayoutShard \<Rightarrow> NamedNumber \<Rightarrow> panic + ChiClusterLayoutShard \<times> NamedNumber" where
  "advancedLayoutShard H K chi clusterDeployment shard deploymentNumber =
     (let shard1 = normalizeClusterAdvancedLayoutShardsInternalReplication K shard;
          shard2 = shard1\<lparr>shard_Deployment :=
                     deploymentMergeFrom (shard_Deployment shard1) (Some clusterDeployment)\<rparr>
      in if DefinitionType shard2 = shardDefinitionTypeReplicasCount K then
           (case make_slice zero_ChiClusterLayoutShardReplica (maxLenReplicas K)
                  (shard_ReplicasCount shard2) of
              Inl e \<Rightarrow> Inl e
            | Inr rs \<Rightarrow>
                normalizeSpecConfigurationClustersLayoutShardsReplicas H chi
                  (shard2\<lparr>Replicas := rs\<rparr>) deploymentNumber)
         else
           normalizeSpecConfigurationClustersLayoutShardsReplicas H chi
             (shard2\<lparr>shard_ReplicasCount := int (length (Replicas shard2))\<rparr>) deploymentNumber)"

fun advancedLoop ::
  "(string \<Rightarrow> string) \<Rightarrow> parser_constants \<Rightarrow> ClickHouseInstallation \<Rightarrow> nat list \<Rightarrow> ChiCluster \<Rightarrow>
   NamedNumber \<Rightarrow> panic + ChiCluster \<times> NamedNumber" where
  "advancedLoop H K chi [] cluster deploymentNumber = Inr (cluster, deploymentNumber)"
| "advancedLoop H K chi (shardIndex # rest) cluster deploymentNumber =
     (if length (Shards (Layout cluster)) \<le> shardIndex then Inl IndexOutOfRange
      else
        (case advancedLayoutShard H K chi (cluster_Deployment cluster)
                (Shards (Layout cluster) ! shardIndex) deploymentNumber of
           Inl e \<Rightarrow> Inl e
         | Inr (shard', deploymentNumber') \<Rightarrow>
             advancedLoop H K chi rest
               (cluster\<lparr>Layout := (Layout cluster)
                  \<lparr>Shards := (Shards (Layout cluster))[shardIndex := shard']\<rparr>\<rparr>)
               deploymentNumber'))"

definition normalizeSpecConfigurationClustersCluster ::
  "(string \<Rightarrow> string) \<Rightarrow> parser_constants \<Rightarrow> ClickHouseInstallation \<Rightarrow> ChiCluster \<Rightarrow>
   panic + ChiCluster \<times> NamedNumber" where
  "normalizeSpecConfigurationClustersCluster H K chi cluster =
     (let deploymentNumber = Map.empty;
          cluster1 = cluster\<lparr>cluster_Deployment :=
                       deploymentMergeFrom (cluster_Deployment cluster)
                         (Some (defaults_Deployment (Defaults (Spec chi))))\<rparr>
      in if Type (Layout cluster1) = clusterLayoutTypeStandard K then
           (let cluster2 = cluster1\<lparr>Layout := normalizeClusterStandardLayoutCounts (Layout cluster1)\<rparr>
            in case make_slice zero_ChiClusterLayoutShard (maxLenShards K)
                      (ShardsCount (Layout cluster2)) of
                 Inl e \<Rightarrow> Inl e
               | Inr shards \<Rightarrow>
                   standardLoop H K chi 0
                     (cluster2\<lparr>Layout := (Layout cluster2)\<lparr>Shards := shards\<rparr>\<rparr>) deploymentNumber)
         else if Type (Layout cluster1) = clusterLayoutTypeAdvanced K then
           advancedLoop H K chi [0..<length (Shards (Layout cluster1))] cluster1 deploymentNumber
         else Inr (cluster1, deploymentNumber))"

section \<open>Defaulting and the whole installation\<close>

definition normalizeSpecDefaultsReplicasUseFQDN :: "ClickHouseInstallation \<Rightarrow> ClickHouseInstallation" where
  "normalizeSpecDefaultsReplicasUseFQDN chi =
     (if ReplicasUseFQDN (Defaults (Spec chi)) = 1 then chi
      else chi\<lparr>Spec := (Spec chi)\<lparr>Defaults := (Defaults (Spec chi))\<lparr>ReplicasUseFQDN := 0\<rparr>\<rparr>\<rparr>)"

definition normalizeSpecDefaultsDeploymentScenario ::
  "parser_constants \<Rightarrow> ClickHouseInstallation \<Rightarrow> ClickHouseInstallation" where
  "normalizeSpecDefaultsDeploymentScenario K chi =
     (if Scenario (defaults_Deployment (Defaults (Spec chi))) = []
      then chi\<lparr>Spec := (Spec chi)\<lparr>Defaults := (Defaults (Spec chi))
             \<lparr>defaults_Deployment := (defaults_Deployment (Defaults (Spec chi)))
                \<lparr>Scenario := deploymentScenarioDefault K\<rparr>\<rparr>\<rparr>\<rparr>
      else chi)"

text \<open>
  Modelled from the spec: the method \<open>mergeAndReplaceWithBiggerValues\<close> of \<open>NamedNumber\<close>
  is not in the file. The spec has the per-cluster maps "combined installation-wide by
  taking, per fingerprint, the maximum count seen across clusters (not the sum)".
\<close>

definition mergeAndReplaceWithBiggerValues :: "NamedNumber \<Rightarrow> NamedNumber \<Rightarrow> NamedNumber" where
  "mergeAndReplaceWithBiggerValues a b =
     (\<lambda>name. case b name of
                None \<Rightarrow> a name
              | Some n \<Rightarrow> (case a name of None \<Rightarrow> Some n | Some m \<Rightarrow> Some (max m n)))"

fun clustersLoop ::
  "(string \<Rightarrow> string) \<Rightarrow> parser_constants \<Rightarrow> nat list \<Rightarrow> ClickHouseInstallation \<Rightarrow> NamedNumber \<Rightarrow>
   panic + ClickHouseInstallation \<times> NamedNumber" where
  "clustersLoop H K [] chi deploymentNumber = Inr (chi, deploymentNumber)"
| "clustersLoop H K (i # rest) chi deploymentNumber =
     (if length (Clusters (Configuration (Spec chi))) \<le> i then Inl IndexOutOfRange
      else
        (case normalizeSpecConfigurationClustersCluster H K chi
                (Clusters (Configuration (Spec chi)) ! i) of
           Inl e \<Rightarrow> Inl e
         | Inr (cluster', clusterDeploymentNumber) \<Rightarrow>
             clustersLoop H K rest
               (chi\<lparr>Spec := (Spec chi)\<lparr>Configuration := (Configuration (Spec chi))
                  \<lparr>Clusters := (Clusters (Configuration (Spec chi)))[i := cluster']\<rparr>\<rparr>\<rparr>)
               (mergeAndReplaceWithBiggerValues deploymentNumber clusterDeploymentNumber)))"

text \<open>
  \<open>NormalizeCHI\<close> mutates the installation in place and returns the usage map; here it
  returns both.
\<close>

definition NormalizeCHI ::
  "(string \<Rightarrow> string) \<Rightarrow> parser_constants \<Rightarrow> ClickHouseInstallation \<Rightarrow>
   panic + ClickHouseInstallation \<times> NamedNumber" where
  "NormalizeCHI H K chi =
     (let chi1 = normalizeSpecDefaultsReplicasUseFQDN chi;
          chi2 = normalizeSpecDefaultsDeploymentScenario K chi1
      in clustersLoop H K [0..<length (Clusters (Configuration (Spec chi2)))] chi2 Map.empty)"

section \<open>Maps as references\<close>

text \<open>
  A Go map value is a reference to a map object, or nil. Whether \<open>zoneCopyFrom\<close> copies the
  labels or shares the parent's map object cannot be seen in the value model above, so the
  merge is given a second time over an explicit store of map objects: a reference is an
  index into the store, \<open>make\<close> appends a fresh empty object, \<open>m[k] = v\<close> updates the
  object in place. \<open>deploymentMergeFrom_store_refines\<close> shows that the value model is what
  remains of this one when the references are followed.
\<close>

type_synonym map_store = "(string \<times> string) list list"

record ChiDeploymentZone_ref =
  MatchLabels_ref :: "nat option"

record ChiDeployment_ref =
  ref_PodTemplate :: string
  ref_VolumeClaimTemplate :: string
  ref_Zone :: ChiDeploymentZone_ref
  ref_Scenario :: string
  ref_Fingerprint :: string
  ref_Index :: int

definition map_entries :: "map_store \<Rightarrow> nat option \<Rightarrow> (string \<times> string) list" where
  "map_entries st r = (case r of None \<Rightarrow> [] | Some a \<Rightarrow> st ! a)"

definition map_make :: "map_store \<Rightarrow> nat \<times> map_store" where
  "map_make st = (length st, st @ [[]])"

definition map_assign :: "map_store \<Rightarrow> nat \<Rightarrow> string \<Rightarrow> string \<Rightarrow> map_store" where
  "map_assign st a k v = st[a := AList.update k v (st ! a)]"

definition valid_ref :: "map_store \<Rightarrow> nat option \<Rightarrow> bool" where
  "valid_ref st r = (case r of None \<Rightarrow> True | Some a \<Rightarrow> a < length st)"

text \<open>
  \<open>zoneCopyFrom\<close> and \<open>deploymentMergeFrom\<close> over the store. The entries of the source are
  read once: \<open>tmp\<close> is fresh, so the assignments to it do not change them.
\<close>

definition zoneCopyFrom_store ::
  "map_store \<Rightarrow> ChiDeploymentZone_ref \<Rightarrow> ChiDeploymentZone_ref option \<Rightarrow>
   map_store \<times> ChiDeploymentZone_ref" where
  "zoneCopyFrom_store st dst src =
     (case src of
        None \<Rightarrow> (st, dst)
      | Some s \<Rightarrow>
          (case map_make st of
             (tmp, st1) \<Rightarrow>
               (fold (\<lambda>(k, v) st'. map_assign st' tmp k v) (map_entries st1 (MatchLabels_ref s)) st1,
                dst\<lparr>MatchLabels_ref := Some tmp\<rparr>)))"

definition deploymentMergeFrom_store ::
  "map_store \<Rightarrow> ChiDeployment_ref \<Rightarrow> ChiDeployment_ref option \<Rightarrow> map_store \<times> ChiDeployment_ref" where
  "deploymentMergeFrom_store st dst src =
     (case src of
        None \<Rightarrow> (st, dst)
      | Some s \<Rightarrow>
          (let d1 = (if ref_PodTemplate dst = [] then dst\<lparr>ref_PodTemplate := ref_PodTemplate s\<rparr>
                     else dst);
               d2 = (if ref_VolumeClaimTemplate d1 = []
                     then d1\<lparr>ref_VolumeClaimTemplate := ref_VolumeClaimTemplate s\<rparr> else d1);
               (st3, d3) =
                 (if length (map_entries st (MatchLabels_ref (ref_Zone d2))) = 0
                  then (case zoneCopyFrom_store st (ref_Zone d2) (Some (ref_Zone s)) of
                          (st', z) \<Rightarrow> (st', d2\<lparr>ref_Zone := z\<rparr>))
                  else (st, d2))
           in (st3, if ref_Scenario d3 = [] then d3\<lparr>ref_Scenario := ref_Scenario s\<rparr> else d3)))"

definition deref :: "map_store \<Rightarrow> ChiDeployment_ref \<Rightarrow> ChiDeployment" where
  "deref st d =
     \<lparr>PodTemplate = ref_PodTemplate d, VolumeClaimTemplate = ref_VolumeClaimTemplate d,
      Zone = \<lparr>MatchLabels = map_entries st (MatchLabels_ref (ref_Zone d))\<rparr>,
      Scenario = ref_Scenario d, Fingerprint = ref_Fingerprint d, Index = ref_Index d\<rparr>"

section \<open>The loops as list recursions\<close>

text \<open>
  Each loop of the code visits a slice front to back and threads the usage map through.
  \<open>replicas_pass\<close>, \<open>shards_pass\<close> and \<open>clusters_pass\<close> are that reading as recursion over
  the list; the lemmas \<open>replicasLoop_from\<close>, \<open>standardLoop_from\<close>, \<open>advancedLoop_from\<close> and
  \<open>clustersLoop_from\<close> below show that the index loops above compute exactly these.
\<close>

fun replicas_pass ::
  "(string \<Rightarrow> string) \<Rightarrow> ClickHouseInstallation \<Rightarrow> ChiDeployment \<Rightarrow>
   ChiClusterLayoutShardReplica list \<Rightarrow> NamedNumber \<Rightarrow>
   ChiClusterLayoutShardReplica list \<times> NamedNumber" where
  "replicas_pass H chi sd [] dn = ([], dn)"
| "replicas_pass H chi sd (r # rs) dn =
     (case normalizeReplica H chi sd r dn of
        (r', dn') \<Rightarrow> (case replicas_pass H chi sd rs dn' of (rs', dn'') \<Rightarrow> (r' # rs', dn'')))"

fun shards_pass ::
  "(ChiClusterLayoutShard \<Rightarrow> NamedNumber \<Rightarrow> panic + ChiClusterLayoutShard \<times> NamedNumber) \<Rightarrow>
   ChiClusterLayoutShard list \<Rightarrow> NamedNumber \<Rightarrow> panic + ChiClusterLayoutShard list \<times> NamedNumber" where
  "shards_pass f [] dn = Inr ([], dn)"
| "shards_pass f (s # ss) dn =
     (case f s dn of
        Inl e \<Rightarrow> Inl e
      | Inr (s', dn') \<Rightarrow>
          (case shards_pass f ss dn' of
             Inl e \<Rightarrow> Inl e
           | Inr (ss', dn'') \<Rightarrow> Inr (s' # ss', dn'')))"

fun clusters_pass ::
  "(ChiCluster \<Rightarrow> panic + ChiCluster \<times> NamedNumber) \<Rightarrow> ChiCluster list \<Rightarrow> NamedNumber \<Rightarrow>
   panic + ChiCluster list \<times> NamedNumber" where
  "clusters_pass f [] dn = Inr ([], dn)"
| "clusters_pass f (c # cs) dn =
     (case f c of
        Inl e \<Rightarrow> Inl e
      | Inr (c', cdn) \<Rightarrow>
          (case clusters_pass f cs (mergeAndReplaceWithBiggerValues dn cdn) of
             Inl e \<Rightarrow> Inl e
           | Inr (cs', dn') \<Rightarrow> Inr (c' # cs', dn')))"

section \<open>Vocabulary of the statements\<close>

text \<open>
  \<open>cluster_deployments\<close> lists the deployments of the replicas of a cluster in the order the
  code visits them (shard by shard, replica by replica). \<open>usage_of fps\<close> is the usage map
  after the fingerprints \<open>fps\<close> have been counted one by one; \<open>indexed_from pre ds\<close> says
  that every deployment of \<open>ds\<close> carries as \<open>Index\<close> the number of earlier occurrences of
  its fingerprint, \<open>pre\<close> being the fingerprints counted before \<open>ds\<close>; \<open>fingerprinted\<close>
  says that a deployment carries its own fingerprint. \<open>cluster_count\<close> is the number of
  replicas of a cluster with a given fingerprint, for the clusters the code counts at all
  (layout type \<open>Standard\<close> or \<open>Advanced\<close>). \<open>separator_free\<close> describes the deployments in
  which no colon and, in label keys, no equals sign occurs; \<open>counts_allocatable\<close> the
  clusters in which every count that the code hands to \<open>make\<close> is one that \<open>make\<close>
  accepts (for a \<open>Standard\<close> layout that is the count after \<open>0\<close> has become \<open>1\<close>).
\<close>

definition installation_clusters :: "ClickHouseInstallation \<Rightarrow> ChiCluster list" where
  "installation_clusters chi = Clusters (Configuration (Spec chi))"

definition with_clusters :: "ClickHouseInstallation \<Rightarrow> ChiCluster list \<Rightarrow> ClickHouseInstallation" where
  "with_clusters chi cs =
     chi\<lparr>Spec := (Spec chi)\<lparr>Configuration := (Configuration (Spec chi))\<lparr>Clusters := cs\<rparr>\<rparr>\<rparr>"

definition normalizeDefaults :: "parser_constants \<Rightarrow> ClickHouseInstallation \<Rightarrow> ClickHouseInstallation" where
  "normalizeDefaults K chi =
     normalizeSpecDefaultsDeploymentScenario K (normalizeSpecDefaultsReplicasUseFQDN chi)"

definition same_scope :: "ClickHouseInstallation \<Rightarrow> ClickHouseInstallation \<Rightarrow> bool" where
  "same_scope chi chi' =
     (Namespace chi = Namespace chi' \<and> Name chi = Name chi' \<and>
      Defaults (Spec chi) = Defaults (Spec chi'))"

definition shard_deployments :: "ChiClusterLayoutShard \<Rightarrow> ChiDeployment list" where
  "shard_deployments sh = map replica_Deployment (Replicas sh)"

definition cluster_deployments :: "ChiCluster \<Rightarrow> ChiDeployment list" where
  "cluster_deployments cl = concat (map shard_deployments (Shards (Layout cl)))"

definition fingerprinted :: "(string \<Rightarrow> string) \<Rightarrow> ClickHouseInstallation \<Rightarrow> ChiDeployment \<Rightarrow> bool" where
  "fingerprinted H chi d = (Fingerprint d = deploymentGenerateFingerprint H chi d)"

definition usage_of :: "string list \<Rightarrow> NamedNumber" where
  "usage_of fps = (\<lambda>F. if F \<in> set fps then Some (int (count_list fps F)) else None)"

fun indexed_from :: "string list \<Rightarrow> ChiDeployment list \<Rightarrow> bool" where
  "indexed_from pre [] = True"
| "indexed_from pre (d # ds) =
     (Index d = int (count_list pre (Fingerprint d)) \<and> indexed_from (pre @ [Fingerprint d]) ds)"

definition counted :: "(string \<Rightarrow> string) \<Rightarrow> ClickHouseInstallation \<Rightarrow> string list \<Rightarrow>
    ChiDeployment list \<Rightarrow> NamedNumber \<Rightarrow> bool" where
  "counted H chi pre ds dn =
     (dn = usage_of (pre @ map Fingerprint ds) \<and> indexed_from pre ds \<and>
      list_all (fingerprinted H chi) ds)"

definition recognized_layout :: "parser_constants \<Rightarrow> ChiCluster \<Rightarrow> bool" where
  "recognized_layout K cl =
     (Type (Layout cl) = clusterLayoutTypeStandard K \<or>
      Type (Layout cl) = clusterLayoutTypeAdvanced K)"

definition cluster_count :: "parser_constants \<Rightarrow> ChiCluster \<Rightarrow> string \<Rightarrow> int" where
  "cluster_count K cl F =
     (if recognized_layout K cl
      then int (count_list (map Fingerprint (cluster_deployments cl)) F) else 0)"

definition count_map :: "(string \<Rightarrow> int) \<Rightarrow> NamedNumber" where
  "count_map g = (\<lambda>F. if g F = 0 then None else Some (g F))"

definition same_replicas :: "ChiClusterLayoutShard \<Rightarrow> ChiClusterLayoutShard \<Rightarrow> bool" where
  "same_replicas sh sh' = (Replicas sh' = Replicas sh)"

definition replica_table :: "ChiCluster \<Rightarrow> ChiClusterLayoutShardReplica list list" where
  "replica_table cl = map Replicas (Shards (Layout cl))"

definition render_label :: "string \<times> string \<Rightarrow> string" where
  "render_label kv = ''::'' @ fst kv @ ''='' @ snd kv"

definition sorted_labels :: "(string \<times> string) list \<Rightarrow> (string \<times> string) list" where
  "sorted_labels z = map (\<lambda>key. (key, match_label z key)) (sort (map fst z))"

definition separator_free :: "ChiDeployment \<Rightarrow> bool" where
  "separator_free d =
     (CHR '':'' \<notin> set (PodTemplate d) \<and> CHR '':'' \<notin> set (VolumeClaimTemplate d) \<and>
      CHR '':'' \<notin> set (Scenario d) \<and>
      list_all (\<lambda>(k, v). CHR '':'' \<notin> set k \<and> CHR ''='' \<notin> set k \<and> CHR '':'' \<notin> set v)
        (MatchLabels (Zone d)))"

definition counts_allocatable :: "parser_constants \<Rightarrow> ChiCluster \<Rightarrow> bool" where
  "counts_allocatable K cl =
     (if Type (Layout cl) = clusterLayoutTypeStandard K
      then 0 \<le> ShardsCount (Layout cl) \<and> max 1 (ShardsCount (Layout cl)) \<le> maxLenShards K \<and>
           0 \<le> ReplicasCount (Layout cl) \<and> max 1 (ReplicasCount (Layout cl)) \<le> maxLenReplicas K
      else if Type (Layout cl) = clusterLayoutTypeAdvanced K
      then list_all (\<lambda>sh. DefinitionType sh = shardDefinitionTypeReplicasCount K \<longrightarrow>
                            0 \<le> shard_ReplicasCount sh \<and>
                            shard_ReplicasCount sh \<le> maxLenReplicas K) (Shards (Layout cl))
      else True)"

section \<open>Copies of an installation\<close>

text \<open>
  A copy of an installation holds the same values, but the maps of the copy may be visited
  in another order. \<open>installation_equiv\<close> relates two installations that are equal field by
  field, the zone labels compared as sets of pairs with distinct keys.
\<close>

definition labels_equiv :: "(string \<times> string) list \<Rightarrow> (string \<times> string) list \<Rightarrow> bool" where
  "labels_equiv z z' = (distinct (map fst z) \<and> distinct (map fst z') \<and> set z = set z')"

definition deployment_equiv :: "ChiDeployment \<Rightarrow> ChiDeployment \<Rightarrow> bool" where
  "deployment_equiv d d' =
     (PodTemplate d = PodTemplate d' \<and> VolumeClaimTemplate d = VolumeClaimTemplate d' \<and>
      Scenario d = Scenario d' \<and> Fingerprint d = Fingerprint d' \<and> Index d = Index d' \<and>
      labels_equiv (MatchLabels (Zone d)) (MatchLabels (Zone d')))"

definition replica_equiv :: "ChiClusterLayoutShardReplica \<Rightarrow> ChiClusterLayoutShardReplica \<Rightarrow> bool" where
  "replica_equiv r r' = deployment_equiv (replica_Deployment r) (replica_Deployment r')"

definition shard_equiv :: "ChiClusterLayoutShard \<Rightarrow> ChiClusterLayoutShard \<Rightarrow> bool" where
  "shard_equiv sh sh' =
     (DefinitionType sh = DefinitionType sh' \<and> shard_ReplicasCount sh = shard_ReplicasCount sh' \<and>
      InternalReplication sh = InternalReplication sh' \<and>
      deployment_equiv (shard_Deployment sh) (shard_Deployment sh') \<and>
      list_all2 replica_equiv (Replicas sh) (Replicas sh'))"

definition cluster_equiv :: "ChiCluster \<Rightarrow> ChiCluster \<Rightarrow> bool" where
  "cluster_equiv cl cl' =
     (Type (Layout cl) = Type (Layout cl') \<and>
      ShardsCount (Layout cl) = ShardsCount (Layout cl') \<and>
      ReplicasCount (Layout cl) = ReplicasCount (Layout cl') \<and>
      list_all2 shard_equiv (Shards (Layout cl)) (Shards (Layout cl')) \<and>
      deployment_equiv (cluster_Deployment cl) (cluster_Deployment cl'))"

definition installation_equiv :: "ClickHouseInstallation \<Rightarrow> ClickHouseInstallation \<Rightarrow> bool" where
  "installation_equiv chi chi' =
     (Namespace chi = Namespace chi' \<and> Name chi = Name chi' \<and>
      ReplicasUseFQDN (Defaults (Spec chi)) = ReplicasUseFQDN (Defaults (Spec chi')) \<and>
      deployment_equiv (defaults_Deployment (Defaults (Spec chi)))
        (defaults_Deployment (Defaults (Spec chi'))) \<and>
      list_all2 cluster_equiv (installation_clusters chi) (installation_clusters chi'))"

definition identity_table :: "ClickHouseInstallation \<Rightarrow> (string \<times> int) list list list" where
  "identity_table chi =
     map (\<lambda>c. map (\<lambda>sh. map (\<lambda>r. (Fingerprint (replica_Deployment r), Index (replica_Deployment r)))
                          (Replicas sh))
                (Shards (Layout c)))
       (installation_clusters chi)"

section \<open>Example values\<close>

text \<open>
  Concrete inputs for the instances below. \<open>example_constants\<close> gives the string constants
  values and lets \<open>make\<close> accept up to \<open>2 ^ 32\<close> elements; \<open>plain_hash\<close> stands in for the
  digest and keeps the hashed text readable. No general statement depends on either.
\<close>

definition example_constants :: parser_constants where
  "example_constants =
     \<lparr>clusterLayoutTypeStandard = ''Standard'', clusterLayoutTypeAdvanced = ''Advanced'',
      shardDefinitionTypeReplicasCount = ''ReplicasCount'',
      shardInternalReplicationDisabled = ''Disabled'',
      stringTrue = ''true'', stringFalse = ''false'', deploymentScenarioDefault = ''Default'',
      maxLenShards = 2 ^ 32, maxLenReplicas = 2 ^ 32\<rparr>"

definition plain_hash :: "string \<Rightarrow> string" where
  "plain_hash s = s"

definition example_deployment :: "string \<Rightarrow> string \<Rightarrow> (string \<times> string) list \<Rightarrow> ChiDeployment" where
  "example_deployment p v z =
     \<lparr>PodTemplate = p, VolumeClaimTemplate = v, Zone = \<lparr>MatchLabels = z\<rparr>,
      Scenario = ''s'', Fingerprint = [], Index = 0\<rparr>"

definition example_replica :: "string \<Rightarrow> string \<Rightarrow> (string \<times> string) list \<Rightarrow> ChiClusterLayoutShardReplica" where
  "example_replica p v z = \<lparr>replica_Deployment = example_deployment p v z\<rparr>"

definition example_shard :: "string \<Rightarrow> int \<Rightarrow> string \<Rightarrow> ChiClusterLayoutShardReplica list \<Rightarrow> ChiClusterLayoutShard" where
  "example_shard t n ir rs =
     \<lparr>DefinitionType = t, shard_ReplicasCount = n, InternalReplication = ir,
      shard_Deployment = zero_ChiDeployment, Replicas = rs\<rparr>"

definition example_cluster :: "string \<Rightarrow> int \<Rightarrow> int \<Rightarrow> ChiClusterLayoutShard list \<Rightarrow> ChiCluster" where
  "example_cluster t sc rc shs =
     \<lparr>Layout = \<lparr>Type = t, ShardsCount = sc, ReplicasCount = rc, Shards = shs\<rparr>,
      cluster_Deployment = zero_ChiDeployment\<rparr>"

definition example_installation :: "ChiCluster list \<Rightarrow> ClickHouseInstallation" where
  "example_installation cs =
     \<lparr>Namespace = ''ns'', Name = ''chi'',
      Spec = \<lparr>Defaults = \<lparr>ReplicasUseFQDN = 0, defaults_Deployment = zero_ChiDeployment\<rparr>,
              Configuration = \<lparr>Clusters = cs\<rparr>\<rparr>\<rparr>"

definition example_duplicates :: ClickHouseInstallation where
  "example_duplicates =
     example_installation
       [example_cluster ''Advanced'' 0 0
          [example_shard ''Replicas'' 0 ''''
             [example_replica ''p'' ''v'' [(''zone'', ''z1''), (''kind'', ''ssd'')],
              example_replica ''p'' ''v'' [(''kind'', ''ssd''), (''zone'', ''z1'')]]],
        example_cluster ''Advanced'' 0 0
          [example_shard ''Replicas'' 0 ''''
             [example_replica ''p'' ''v'' [(''kind'', ''ssd''), (''zone'', ''z1'')]]]]"

definition example_duplicates_copy :: ClickHouseInstallation where
  "example_duplicates_copy =
     example_installation
       [example_cluster ''Advanced'' 0 0
          [example_shard ''Replicas'' 0 ''''
             [example_replica ''p'' ''v'' [(''kind'', ''ssd''), (''zone'', ''z1'')],
              example_replica ''p'' ''v'' [(''zone'', ''z1''), (''kind'', ''ssd'')]]],
        example_cluster ''Advanced'' 0 0
          [example_shard ''Replicas'' 0 ''''
             [example_replica ''p'' ''v'' [(''zone'', ''z1''), (''kind'', ''ssd'')]]]]"

definition example_colliding :: ClickHouseInstallation where
  "example_colliding =
     example_installation
       [example_cluster ''Advanced'' 0 0
          [example_shard ''Replicas'' 0 ''''
             [example_replica ''a::b'' ''c'' [], example_replica ''a'' ''b::c'' []]]]"

definition example_distinct :: ClickHouseInstallation where
  "example_distinct =
     example_installation
       [example_cluster ''Advanced'' 0 0
          [example_shard ''Replicas'' 0 ''''
             [example_replica ''p'' ''v'' [(''zone'', ''z1'')],
              example_replica ''p'' ''v'' [(''zone'', ''z2'')]]]]"

text \<open>A store of two map objects, for the instances of the merge over the store.\<close>

definition example_store :: map_store where
  "example_store = [[(''zone'', ''z1''), (''kind'', ''ssd'')], [(''rack'', ''r1'')]]"

definition example_deployment_ref :: "nat option \<Rightarrow> ChiDeployment_ref" where
  "example_deployment_ref r =
     \<lparr>ref_PodTemplate = ''p'', ref_VolumeClaimTemplate = ''v'',
      ref_Zone = \<lparr>MatchLabels_ref = r\<rparr>, ref_Scenario = ''s'',
      ref_Fingerprint = [], ref_Index = 0\<rparr>"

section \<open>The index loops compute the list recursions\<close>

lemma replicasLoop_from:
  assumes "shard_ReplicasCount sh = int (length (Replicas sh))"
    and "Replicas sh = seen @ todo"
    and "i = int (length seen)"
  shows "replicasLoop H chi i sh dn =
     (case replicas_pass H chi (shard_Deployment sh) todo dn of
        (rs', dn') \<Rightarrow> Inr (sh\<lparr>Replicas := seen @ rs'\<rparr>, dn'))"
  using assms
proof (induction todo arbitrary: sh seen i dn)
  case Nil
  then show ?case
    by (subst replicasLoop.simps) simp
next
  case (Cons r rs)
  obtain r' dn' where step: "normalizeReplica H chi (shard_Deployment sh) r dn = (r', dn')"
    by (cases "normalizeReplica H chi (shard_Deployment sh) r dn")
  let ?sh = "sh\<lparr>Replicas := (Replicas sh)[nat i := r']\<rparr>"
  have upd: "(Replicas sh)[nat i := r'] = (seen @ [r']) @ rs"
    using Cons.prems by simp
  have nth: "Replicas sh ! nat i = r"
    using Cons.prems by simp
  have "replicasLoop H chi (i + 1) ?sh dn' =
     (case replicas_pass H chi (shard_Deployment ?sh) rs dn' of
        (rs', dn'') \<Rightarrow> Inr (?sh\<lparr>Replicas := (seen @ [r']) @ rs'\<rparr>, dn''))"
    by (rule Cons.IH) (use Cons.prems upd in simp_all)
  then show ?case
    using Cons.prems step nth
    by (subst replicasLoop.simps) (simp split: prod.splits)
qed

lemma normalizeSpecConfigurationClustersLayoutShardsReplicas_pass:
  assumes "shard_ReplicasCount sh = int (length (Replicas sh))"
  shows "normalizeSpecConfigurationClustersLayoutShardsReplicas H chi sh dn =
     (case replicas_pass H chi (shard_Deployment sh) (Replicas sh) dn of
        (rs', dn') \<Rightarrow> Inr (sh\<lparr>Replicas := rs'\<rparr>, dn'))"
  unfolding normalizeSpecConfigurationClustersLayoutShardsReplicas_def
  using replicasLoop_from [of sh "[]" "Replicas sh" 0 H chi dn] assms by simp

lemma standardLayoutShard_pass:
  "standardLayoutShard H K chi n sh dn =
     (if n < 0 \<or> maxLenReplicas K < n then Inl MakesliceLenOutOfRange
      else case replicas_pass H chi (shard_Deployment sh)
                  (replicate (nat n) zero_ChiClusterLayoutShardReplica) dn of
             (rs', dn') \<Rightarrow>
               Inr (sh\<lparr>shard_ReplicasCount := n, InternalReplication := stringTrue K,
                       Replicas := rs'\<rparr>, dn'))"
  by (simp add: standardLayoutShard_def make_slice_def
      normalizeSpecConfigurationClustersLayoutShardsReplicas_pass split: prod.splits)

lemma advancedLayoutShard_pass:
  "advancedLayoutShard H K chi cd sh dn =
     (let sh1 = normalizeClusterAdvancedLayoutShardsInternalReplication K sh;
          sd = deploymentMergeFrom (shard_Deployment sh) (Some cd)
      in if DefinitionType sh = shardDefinitionTypeReplicasCount K then
           (if shard_ReplicasCount sh < 0 \<or> maxLenReplicas K < shard_ReplicasCount sh
            then Inl MakesliceLenOutOfRange
            else case replicas_pass H chi sd
                        (replicate (nat (shard_ReplicasCount sh)) zero_ChiClusterLayoutShardReplica) dn of
                   (rs', dn') \<Rightarrow> Inr (sh1\<lparr>shard_Deployment := sd, Replicas := rs'\<rparr>, dn'))
         else
           (case replicas_pass H chi sd (Replicas sh) dn of
              (rs', dn') \<Rightarrow>
                Inr (sh1\<lparr>shard_Deployment := sd,
                        shard_ReplicasCount := int (length (Replicas sh)), Replicas := rs'\<rparr>, dn')))"
  by (simp add: advancedLayoutShard_def make_slice_def Let_def
      normalizeClusterAdvancedLayoutShardsInternalReplication_def
      normalizeSpecConfigurationClustersLayoutShardsReplicas_pass split: prod.splits)

lemma standardLoop_from:
  assumes "ShardsCount (Layout cl) = int (length (Shards (Layout cl)))"
    and "Shards (Layout cl) = seen @ todo"
    and "i = int (length seen)"
  shows "standardLoop H K chi i cl dn =
     (case shards_pass (standardLayoutShard H K chi (ReplicasCount (Layout cl))) todo dn of
        Inl e \<Rightarrow> Inl e
      | Inr (ss', dn') \<Rightarrow> Inr (cl\<lparr>Layout := (Layout cl)\<lparr>Shards := seen @ ss'\<rparr>\<rparr>, dn'))"
  using assms
proof (induction todo arbitrary: cl seen i dn)
  case Nil
  then show ?case
    by (subst standardLoop.simps) simp
next
  case (Cons s ss)
  let ?f = "standardLayoutShard H K chi (ReplicasCount (Layout cl))"
  have nth: "Shards (Layout cl) ! nat i = s"
    using Cons.prems by simp
  show ?case
  proof (cases "?f s dn")
    case (Inl e)
    then show ?thesis
      using Cons.prems nth by (subst standardLoop.simps) simp
  next
    case (Inr p)
    obtain s' dn' where p: "p = (s', dn')" by (cases p)
    let ?cl = "cl\<lparr>Layout := (Layout cl)\<lparr>Shards := (Shards (Layout cl))[nat i := s']\<rparr>\<rparr>"
    have upd: "(Shards (Layout cl))[nat i := s'] = (seen @ [s']) @ ss"
      using Cons.prems by simp
    have "standardLoop H K chi (i + 1) ?cl dn' =
       (case shards_pass (standardLayoutShard H K chi (ReplicasCount (Layout ?cl))) ss dn' of
          Inl e \<Rightarrow> Inl e
        | Inr (ss', dn'') \<Rightarrow>
            Inr (?cl\<lparr>Layout := (Layout ?cl)\<lparr>Shards := (seen @ [s']) @ ss'\<rparr>\<rparr>, dn''))"
      by (rule Cons.IH) (use Cons.prems upd in simp_all)
    then show ?thesis
      using Cons.prems nth Inr p
      by (subst standardLoop.simps) (simp split: sum.splits prod.splits)
  qed
qed

lemma advancedLoop_from:
  assumes "Shards (Layout cl) = seen @ todo"
  shows "advancedLoop H K chi [length seen..<length seen + length todo] cl dn =
     (case shards_pass (advancedLayoutShard H K chi (cluster_Deployment cl)) todo dn of
        Inl e \<Rightarrow> Inl e
      | Inr (ss', dn') \<Rightarrow> Inr (cl\<lparr>Layout := (Layout cl)\<lparr>Shards := seen @ ss'\<rparr>\<rparr>, dn'))"
  using assms
proof (induction todo arbitrary: cl seen dn)
  case Nil
  then show ?case by simp
next
  case (Cons s ss)
  let ?f = "advancedLayoutShard H K chi (cluster_Deployment cl)"
  have idx: "[length seen..<length seen + length (s # ss)] =
      length seen # [length (seen @ [s])..<length (seen @ [s]) + length ss]"
    using upt_conv_Cons [of "length seen" "length seen + length (s # ss)"] by simp
  have nth: "Shards (Layout cl) ! length seen = s"
    using Cons.prems by simp
  show ?case
  proof (cases "?f s dn")
    case (Inl e)
    then show ?thesis
      using Cons.prems nth unfolding idx by simp
  next
    case (Inr p)
    obtain s' dn' where p: "p = (s', dn')" by (cases p)
    let ?cl = "cl\<lparr>Layout := (Layout cl)\<lparr>Shards := (Shards (Layout cl))[length seen := s']\<rparr>\<rparr>"
    have upd: "Shards (Layout ?cl) = (seen @ [s']) @ ss"
      using Cons.prems by simp
    have "advancedLoop H K chi [length (seen @ [s'])..<length (seen @ [s']) + length ss] ?cl dn' =
       (case shards_pass (advancedLayoutShard H K chi (cluster_Deployment ?cl)) ss dn' of
          Inl e \<Rightarrow> Inl e
        | Inr (ss', dn'') \<Rightarrow>
            Inr (?cl\<lparr>Layout := (Layout ?cl)\<lparr>Shards := (seen @ [s']) @ ss'\<rparr>\<rparr>, dn''))"
      by (rule Cons.IH) (rule upd)
    then show ?thesis
      using Cons.prems nth Inr p unfolding idx
      by (simp split: sum.splits prod.splits)
  qed
qed

lemma normalizeSpecConfigurationClustersCluster_pass:
  "normalizeSpecConfigurationClustersCluster H K chi cl =
     (let cl1 = cl\<lparr>cluster_Deployment :=
                   deploymentMergeFrom (cluster_Deployment cl)
                     (Some (defaults_Deployment (Defaults (Spec chi))))\<rparr>
      in if Type (Layout cl) = clusterLayoutTypeStandard K then
           (let l = normalizeClusterStandardLayoutCounts (Layout cl)
            in if ShardsCount l < 0 \<or> maxLenShards K < ShardsCount l
               then Inl MakesliceLenOutOfRange
               else case shards_pass (standardLayoutShard H K chi (ReplicasCount l))
                           (replicate (nat (ShardsCount l)) zero_ChiClusterLayoutShard) Map.empty of
                      Inl e \<Rightarrow> Inl e
                    | Inr (ss', dn') \<Rightarrow> Inr (cl1\<lparr>Layout := l\<lparr>Shards := ss'\<rparr>\<rparr>, dn'))
         else if Type (Layout cl) = clusterLayoutTypeAdvanced K then
           (case shards_pass (advancedLayoutShard H K chi (cluster_Deployment cl1))
                   (Shards (Layout cl)) Map.empty of
              Inl e \<Rightarrow> Inl e
            | Inr (ss', dn') \<Rightarrow> Inr (cl1\<lparr>Layout := (Layout cl)\<lparr>Shards := ss'\<rparr>\<rparr>, dn'))
         else Inr (cl1, Map.empty))"
proof -
  let ?cl1 = "cl\<lparr>cluster_Deployment :=
                   deploymentMergeFrom (cluster_Deployment cl)
                     (Some (defaults_Deployment (Defaults (Spec chi))))\<rparr>"
  have adv: "advancedLoop H K chi [0..<length (Shards (Layout cl))] ?cl1 dn =
     (case shards_pass (advancedLayoutShard H K chi (cluster_Deployment ?cl1)) (Shards (Layout cl)) dn of
        Inl e \<Rightarrow> Inl e
      | Inr (ss', dn') \<Rightarrow> Inr (?cl1\<lparr>Layout := (Layout cl)\<lparr>Shards := ss'\<rparr>\<rparr>, dn'))" for dn
    using advancedLoop_from [of ?cl1 "[]" "Shards (Layout cl)" H K chi dn]
    by (simp cong: sum.case_cong prod.case_cong)
  have std: "standardLoop H K chi 0 (?cl1\<lparr>Layout := l\<lparr>Shards := replicate (nat (ShardsCount l)) z\<rparr>\<rparr>) dn =
     (case shards_pass (standardLayoutShard H K chi (ReplicasCount l)) (replicate (nat (ShardsCount l)) z) dn of
        Inl e \<Rightarrow> Inl e
      | Inr (ss', dn') \<Rightarrow> Inr (?cl1\<lparr>Layout := l\<lparr>Shards := ss'\<rparr>\<rparr>, dn'))"
    if "0 \<le> ShardsCount l" for l z dn
    using standardLoop_from [of "?cl1\<lparr>Layout := l\<lparr>Shards := replicate (nat (ShardsCount l)) z\<rparr>\<rparr>"
        "[]" "replicate (nat (ShardsCount l)) z" 0 H K chi dn] that
    by (simp cong: sum.case_cong prod.case_cong)
  show ?thesis
    unfolding normalizeSpecConfigurationClustersCluster_def Let_def
    by (simp add: adv std make_slice_def)
qed

section \<open>The canonical string does not depend on the order of the labels\<close>

lemma sort_keys_eq:
  assumes "distinct (map fst z1)" "distinct (map fst z2)" "set z1 = set z2"
  shows "sort (map fst z1) = sort (map fst z2)"
proof (rule sorted_distinct_set_unique)
  show "set (sort (map fst z1)) = set (sort (map fst z2))"
    using assms(3) by simp
qed (use assms(1,2) in simp_all)

lemma match_label_eq:
  assumes "distinct (map fst z1)" "distinct (map fst z2)" "set z1 = set z2"
  shows "match_label z1 = match_label z2"
proof -
  have "map_of z1 = map_of z2"
    using assms by (simp add: map_of_inject_set)
  then show ?thesis by (simp add: match_label_def fun_eq_iff)
qed

lemma deploymentGenerateString_cong:
  assumes "PodTemplate d1 = PodTemplate d2"
    and "VolumeClaimTemplate d1 = VolumeClaimTemplate d2"
    and "Scenario d1 = Scenario d2"
    and "distinct (map fst (MatchLabels (Zone d1)))"
    and "distinct (map fst (MatchLabels (Zone d2)))"
    and "set (MatchLabels (Zone d1)) = set (MatchLabels (Zone d2))"
  shows "deploymentGenerateString d1 = deploymentGenerateString d2"
  unfolding deploymentGenerateString_def
  using assms sort_keys_eq [OF assms(4,5,6)] match_label_eq [OF assms(4,5,6)] by simp

lemma deploymentGenerateString_derived [simp]:
  "deploymentGenerateString (d\<lparr>Fingerprint := f\<rparr>) = deploymentGenerateString d"
  "deploymentGenerateString (d\<lparr>Index := i\<rparr>) = deploymentGenerateString d"
  by (simp_all add: deploymentGenerateString_def)

lemma deploymentGenerateFingerprint_derived [simp]:
  "deploymentGenerateFingerprint H chi (d\<lparr>Fingerprint := f\<rparr>) = deploymentGenerateFingerprint H chi d"
  "deploymentGenerateFingerprint H chi (d\<lparr>Index := i\<rparr>) = deploymentGenerateFingerprint H chi d"
  by (simp_all add: deploymentGenerateFingerprint_def)

section \<open>Counting and indexing\<close>

lemma usage_of_Nil [simp]: "usage_of [] = Map.empty"
  by (simp add: usage_of_def)

lemma named_number_get_usage_of [simp]:
  "named_number_get (usage_of fps) F = int (count_list fps F)"
  by (simp add: named_number_get_def usage_of_def)

lemma usage_of_snoc:
  "(usage_of pre)(F \<mapsto> int (count_list pre F) + 1) = usage_of (pre @ [F])"
  by (rule ext) (simp add: usage_of_def)

lemma named_number_get_upd [simp]: "named_number_get (m(k \<mapsto> v)) k = v"
  by (simp add: named_number_get_def)

lemma indexed_from_append:
  "indexed_from pre (xs @ ys) =
     (indexed_from pre xs \<and> indexed_from (pre @ map Fingerprint xs) ys)"
  by (induction xs arbitrary: pre) auto

lemma indexed_from_nth:
  assumes "indexed_from pre ds" and "j < length ds"
  shows "Index (ds ! j) = int (count_list (pre @ take j (map Fingerprint ds)) (Fingerprint (ds ! j)))"
  using assms
proof (induction ds arbitrary: pre j)
  case Nil
  then show ?case by simp
next
  case (Cons d ds)
  show ?case
  proof (cases j)
    case 0
    then show ?thesis using Cons.prems by simp
  next
    case (Suc k)
    then show ?thesis
      using Cons.IH [of "pre @ [Fingerprint d]" k] Cons.prems by simp
  qed
qed

lemma normalizeReplica_usage:
  assumes "normalizeReplica H chi sd r (usage_of pre) = (r', dn')"
  shows "dn' = usage_of (pre @ [Fingerprint (replica_Deployment r')])"
    and "Index (replica_Deployment r') = int (count_list pre (Fingerprint (replica_Deployment r')))"
    and "fingerprinted H chi (replica_Deployment r')"
  using assms
  by (auto simp: normalizeReplica_def Let_def usage_of_snoc fingerprinted_def)

lemma replicas_pass_length:
  "replicas_pass H chi sd rs dn = (rs', dn') \<Longrightarrow> length rs' = length rs"
  by (induction rs arbitrary: dn rs' dn') (auto split: prod.splits)

lemma replicas_pass_usage:
  assumes "replicas_pass H chi sd rs (usage_of pre) = (rs', dn')"
  shows "dn' = usage_of (pre @ map Fingerprint (map replica_Deployment rs'))
       \<and> indexed_from pre (map replica_Deployment rs')
       \<and> list_all (fingerprinted H chi) (map replica_Deployment rs')"
  using assms
proof (induction rs arbitrary: pre rs' dn')
  case Nil
  then show ?case by simp
next
  case (Cons r rs)
  obtain r1 dn1 where step: "normalizeReplica H chi sd r (usage_of pre) = (r1, dn1)"
    by (cases "normalizeReplica H chi sd r (usage_of pre)")
  obtain rs1 dn2 where rest: "replicas_pass H chi sd rs dn1 = (rs1, dn2)"
    by (cases "replicas_pass H chi sd rs dn1")
  have res: "rs' = r1 # rs1" "dn' = dn2"
    using Cons.prems step rest by simp_all
  note u = normalizeReplica_usage [OF step]
  have "dn2 = usage_of ((pre @ [Fingerprint (replica_Deployment r1)])
                   @ map Fingerprint (map replica_Deployment rs1))
       \<and> indexed_from (pre @ [Fingerprint (replica_Deployment r1)]) (map replica_Deployment rs1)
       \<and> list_all (fingerprinted H chi) (map replica_Deployment rs1)"
    by (rule Cons.IH) (use rest u(1) in simp)
  then show ?case
    using res u by simp
qed

lemma counted_Nil [simp]: "counted H chi pre [] dn = (dn = usage_of pre)"
  by (simp add: counted_def)

lemma counted_append:
  assumes "counted H chi pre xs dn1"
    and "counted H chi (pre @ map Fingerprint xs) ys dn2"
  shows "counted H chi pre (xs @ ys) dn2"
  using assms by (simp add: counted_def indexed_from_append)

lemma replicas_pass_counted:
  "replicas_pass H chi sd rs (usage_of pre) = (rs', dn') \<Longrightarrow>
   counted H chi pre (map replica_Deployment rs') dn'"
  unfolding counted_def by (rule replicas_pass_usage)

lemma standardLayoutShard_counted:
  assumes "standardLayoutShard H K chi n sh (usage_of pre) = Inr (sh', dn')"
  shows "counted H chi pre (shard_deployments sh') dn'"
  using assms
  by (auto simp: standardLayoutShard_pass shard_deployments_def
      split: if_splits prod.splits dest: replicas_pass_counted)

lemma advancedLayoutShard_counted:
  assumes "advancedLayoutShard H K chi cd sh (usage_of pre) = Inr (sh', dn')"
  shows "counted H chi pre (shard_deployments sh') dn'"
  using assms
  by (auto simp: advancedLayoutShard_pass shard_deployments_def Let_def
      split: if_splits prod.splits dest: replicas_pass_counted)

lemma shards_pass_counted:
  assumes body: "\<And>sh pre sh' dn'. f sh (usage_of pre) = Inr (sh', dn') \<Longrightarrow>
      counted H chi pre (shard_deployments sh') dn'"
    and "shards_pass f shs (usage_of pre) = Inr (shs', dn')"
  shows "counted H chi pre (concat (map shard_deployments shs')) dn'"
  using assms(2)
proof (induction shs arbitrary: pre shs' dn')
  case Nil
  then show ?case by simp
next
  case (Cons s ss)
  from Cons.prems obtain s1 dn1 ss1 where
    step: "f s (usage_of pre) = Inr (s1, dn1)" and
    rest: "shards_pass f ss dn1 = Inr (ss1, dn')" and
    res: "shs' = s1 # ss1"
    by (auto split: sum.splits prod.splits)
  have c1: "counted H chi pre (shard_deployments s1) dn1"
    by (rule body [OF step])
  then have dn1: "dn1 = usage_of (pre @ map Fingerprint (shard_deployments s1))"
    by (simp add: counted_def)
  have c2: "counted H chi (pre @ map Fingerprint (shard_deployments s1))
      (concat (map shard_deployments ss1)) dn'"
    by (rule Cons.IH) (use rest dn1 in simp)
  show ?case
    using counted_append [OF c1 c2] res by simp
qed

lemma normalizeSpecConfigurationClustersCluster_counted:
  assumes "normalizeSpecConfigurationClustersCluster H K chi cl = Inr (cl', dn)"
    and "Type (Layout cl) = clusterLayoutTypeStandard K
       \<or> Type (Layout cl) = clusterLayoutTypeAdvanced K"
  shows "counted H chi [] (cluster_deployments cl') dn"
proof (cases "Type (Layout cl) = clusterLayoutTypeStandard K")
  case True
  let ?l = "normalizeClusterStandardLayoutCounts (Layout cl)"
  from assms(1) True obtain ss where
    pass: "shards_pass (standardLayoutShard H K chi (ReplicasCount ?l))
        (replicate (nat (ShardsCount ?l)) zero_ChiClusterLayoutShard) (usage_of []) = Inr (ss, dn)"
    and res: "Shards (Layout cl') = ss"
    by (auto simp: normalizeSpecConfigurationClustersCluster_pass Let_def
        split: if_splits sum.splits prod.splits)
  show ?thesis
    unfolding cluster_deployments_def res
    by (rule shards_pass_counted [OF _ pass]) (rule standardLayoutShard_counted)
next
  case False
  then have adv: "Type (Layout cl) = clusterLayoutTypeAdvanced K"
    using assms(2) by simp
  let ?cd = "deploymentMergeFrom (cluster_Deployment cl)
                     (Some (defaults_Deployment (Defaults (Spec chi))))"
  from assms(1) False adv obtain ss where
    pass: "shards_pass (advancedLayoutShard H K chi ?cd) (Shards (Layout cl)) (usage_of [])
        = Inr (ss, dn)"
    and res: "Shards (Layout cl') = ss"
    by (auto simp: normalizeSpecConfigurationClustersCluster_pass Let_def
        split: if_splits sum.splits prod.splits)
  show ?thesis
    unfolding cluster_deployments_def res
    by (rule shards_pass_counted [OF _ pass]) (rule advancedLayoutShard_counted)
qed

section \<open>The loop over the clusters\<close>

lemma deploymentGenerateFingerprint_scope:
  assumes "same_scope chi chi'"
  shows "deploymentGenerateFingerprint H chi d = deploymentGenerateFingerprint H chi' d"
  using assms by (simp add: deploymentGenerateFingerprint_def same_scope_def)

lemma normalizeReplica_scope:
  assumes "same_scope chi chi'"
  shows "normalizeReplica H chi sd r dn = normalizeReplica H chi' sd r dn"
  by (simp add: normalizeReplica_def deploymentGenerateFingerprint_scope [OF assms])

lemma replicas_pass_scope:
  assumes "same_scope chi chi'"
  shows "replicas_pass H chi sd rs dn = replicas_pass H chi' sd rs dn"
  by (induction rs arbitrary: dn) (simp_all add: normalizeReplica_scope [OF assms])

lemma standardLayoutShard_scope:
  assumes "same_scope chi chi'"
  shows "standardLayoutShard H K chi = standardLayoutShard H K chi'"
  by (intro ext) (simp add: standardLayoutShard_pass replicas_pass_scope [OF assms])

lemma advancedLayoutShard_scope:
  assumes "same_scope chi chi'"
  shows "advancedLayoutShard H K chi = advancedLayoutShard H K chi'"
  by (intro ext) (simp add: advancedLayoutShard_pass Let_def replicas_pass_scope [OF assms])

lemma normalizeSpecConfigurationClustersCluster_scope:
  assumes "same_scope chi chi'"
  shows "normalizeSpecConfigurationClustersCluster H K chi =
         normalizeSpecConfigurationClustersCluster H K chi'"
proof -
  have "Defaults (Spec chi) = Defaults (Spec chi')"
    using assms by (simp add: same_scope_def)
  then show ?thesis
    by (intro ext)
      (simp add: normalizeSpecConfigurationClustersCluster_pass Let_def
        standardLayoutShard_scope [OF assms] advancedLayoutShard_scope [OF assms])
qed

lemma same_scope_with_clusters [simp]: "same_scope (with_clusters chi cs) chi"
  by (simp add: same_scope_def with_clusters_def)

lemma with_clusters_twice [simp]:
  "with_clusters (with_clusters chi cs) cs' = with_clusters chi cs'"
  by (simp add: with_clusters_def)

lemma installation_clusters_with [simp]:
  "installation_clusters (with_clusters chi cs) = cs"
  by (simp add: with_clusters_def installation_clusters_def)

lemma with_clusters_same [simp]:
  "with_clusters chi (installation_clusters chi) = chi"
  by (simp add: with_clusters_def installation_clusters_def)

lemma clustersLoop_from:
  assumes "installation_clusters chi = seen @ todo"
  shows "clustersLoop H K [length seen..<length seen + length todo] chi dn =
     (case clusters_pass (normalizeSpecConfigurationClustersCluster H K chi) todo dn of
        Inl e \<Rightarrow> Inl e
      | Inr (cs', dn') \<Rightarrow> Inr (with_clusters chi (seen @ cs'), dn'))"
  using assms
proof (induction todo arbitrary: chi seen dn)
  case Nil
  then have "with_clusters chi seen = chi"
    using with_clusters_same [of chi] by simp
  then show ?case by simp
next
  case (Cons c cs)
  let ?f = "normalizeSpecConfigurationClustersCluster H K chi"
  have idx: "[length seen..<length seen + length (c # cs)] =
      length seen # [length (seen @ [c])..<length (seen @ [c]) + length cs]"
    using upt_conv_Cons [of "length seen" "length seen + length (c # cs)"] by simp
  have nth: "Clusters (Configuration (Spec chi)) ! length seen = c"
    and len: "length seen < length (Clusters (Configuration (Spec chi)))"
    using Cons.prems by (simp_all add: installation_clusters_def)
  show ?case
  proof (cases "?f c")
    case (Inl e)
    then show ?thesis
      using nth len unfolding idx by simp
  next
    case (Inr p)
    obtain c' cdn where p: "p = (c', cdn)" by (cases p)
    let ?m = "mergeAndReplaceWithBiggerValues dn cdn"
    let ?chi = "with_clusters chi ((seen @ [c']) @ cs)"
    have upd: "chi\<lparr>Spec := (Spec chi)\<lparr>Configuration := (Configuration (Spec chi))
                  \<lparr>Clusters := (Clusters (Configuration (Spec chi)))[length seen := c']\<rparr>\<rparr>\<rparr> = ?chi"
      using Cons.prems by (simp add: with_clusters_def installation_clusters_def)
    have f: "normalizeSpecConfigurationClustersCluster H K ?chi = ?f"
      by (rule normalizeSpecConfigurationClustersCluster_scope) simp
    have step: "clustersLoop H K (length seen # rest) chi dn = clustersLoop H K rest ?chi ?m" for rest
      using nth len Inr p upd by simp
    have "installation_clusters ?chi = (seen @ [c']) @ cs"
      by simp
    then have "clustersLoop H K [length (seen @ [c'])..<length (seen @ [c']) + length cs] ?chi ?m =
       (case clusters_pass (normalizeSpecConfigurationClustersCluster H K ?chi) cs ?m of
          Inl e \<Rightarrow> Inl e
        | Inr (cs', dn') \<Rightarrow> Inr (with_clusters ?chi ((seen @ [c']) @ cs'), dn'))"
      by (rule Cons.IH)
    then have IH: "clustersLoop H K [length (seen @ [c])..<length (seen @ [c]) + length cs] ?chi ?m =
       (case clusters_pass ?f cs ?m of
          Inl e \<Rightarrow> Inl e
        | Inr (cs', dn') \<Rightarrow> Inr (with_clusters chi ((seen @ [c']) @ cs'), dn'))"
      unfolding f with_clusters_twice length_append by simp
    have "clusters_pass ?f (c # cs) dn =
       (case clusters_pass ?f cs ?m of
          Inl e \<Rightarrow> Inl e
        | Inr (cs', dn') \<Rightarrow> Inr (c' # cs', dn'))"
      using Inr p by simp
    then show ?thesis
      unfolding idx step IH by (simp split: sum.splits prod.splits)
  qed
qed

lemma installation_clusters_normalizeDefaults [simp]:
  "installation_clusters (normalizeDefaults K chi) = installation_clusters chi"
  by (simp add: normalizeDefaults_def normalizeSpecDefaultsDeploymentScenario_def
      normalizeSpecDefaultsReplicasUseFQDN_def installation_clusters_def)

lemma NormalizeCHI_pass:
  "NormalizeCHI H K chi =
     (case clusters_pass (normalizeSpecConfigurationClustersCluster H K (normalizeDefaults K chi))
             (installation_clusters chi) Map.empty of
        Inl e \<Rightarrow> Inl e
      | Inr (cs', dn') \<Rightarrow> Inr (with_clusters (normalizeDefaults K chi) cs', dn'))"
  using clustersLoop_from [of "normalizeDefaults K chi" "[]" "installation_clusters chi" H K Map.empty]
  unfolding NormalizeCHI_def Let_def
  by (simp add: normalizeDefaults_def [symmetric] installation_clusters_def [symmetric]
      cong: sum.case_cong prod.case_cong)

lemma NormalizeCHI_results:
  assumes "NormalizeCHI H K chi = Inr (chi', dn)"
  shows "clusters_pass (normalizeSpecConfigurationClustersCluster H K (normalizeDefaults K chi))
           (installation_clusters chi) Map.empty = Inr (installation_clusters chi', dn)"
    and "chi' = with_clusters (normalizeDefaults K chi) (installation_clusters chi')"
  using assms by (auto simp: NormalizeCHI_pass split: sum.splits prod.splits)

lemma clusters_pass_results:
  assumes "clusters_pass f cs dn = Inr (cs', dn')"
  shows "list_all2 (\<lambda>c c'. \<exists>cdn. f c = Inr (c', cdn)) cs cs'"
  using assms
proof (induction cs arbitrary: dn cs' dn')
  case Nil
  then show ?case by simp
next
  case (Cons c cs)
  from Cons.prems obtain c1 cdn cs1 where
    step: "f c = Inr (c1, cdn)" and
    rest: "clusters_pass f cs (mergeAndReplaceWithBiggerValues dn cdn) = Inr (cs1, dn')" and
    res: "cs' = c1 # cs1"
    by (auto split: sum.splits prod.splits)
  show ?case
    using step Cons.IH [OF rest] res by auto
qed

lemma normalizeSpecConfigurationClustersCluster_LayoutType:
  "normalizeSpecConfigurationClustersCluster H K chi cl = Inr (cl', dn) \<Longrightarrow>
   Type (Layout cl') = Type (Layout cl)"
  by (auto simp: normalizeSpecConfigurationClustersCluster_pass Let_def
      normalizeClusterStandardLayoutCounts_def split: if_splits sum.splits prod.splits)

lemma installation_cluster_counted:
  assumes "NormalizeCHI H K chi = Inr (chi', dn)"
    and "c \<in> set (installation_clusters chi')"
    and "recognized_layout K c"
  shows "\<exists>cdn. counted H (normalizeDefaults K chi) [] (cluster_deployments c) cdn"
proof -
  let ?f = "normalizeSpecConfigurationClustersCluster H K (normalizeDefaults K chi)"
  have "list_all2 (\<lambda>c c'. \<exists>cdn. ?f c = Inr (c', cdn))
      (installation_clusters chi) (installation_clusters chi')"
    by (rule clusters_pass_results [OF NormalizeCHI_results(1) [OF assms(1)]])
  then obtain c0 cdn where step: "?f c0 = Inr (c, cdn)"
    using assms(2) by (auto simp: list_all2_conv_all_nth in_set_conv_nth)
  have "recognized_layout K c0"
    using normalizeSpecConfigurationClustersCluster_LayoutType [OF step] assms(3)
    by (simp add: recognized_layout_def)
  then have "counted H (normalizeDefaults K chi) [] (cluster_deployments c) cdn"
    using normalizeSpecConfigurationClustersCluster_counted [OF step]
    by (simp add: recognized_layout_def)
  then show ?thesis by blast
qed

section \<open>Zone labels are merged all or nothing\<close>

lemma deploymentMergeFrom_fields:
  "PodTemplate (deploymentMergeFrom d (Some s)) =
     (if PodTemplate d = [] then PodTemplate s else PodTemplate d)"
  "VolumeClaimTemplate (deploymentMergeFrom d (Some s)) =
     (if VolumeClaimTemplate d = [] then VolumeClaimTemplate s else VolumeClaimTemplate d)"
  "Scenario (deploymentMergeFrom d (Some s)) =
     (if Scenario d = [] then Scenario s else Scenario d)"
  "Zone (deploymentMergeFrom d (Some s)) =
     (if MatchLabels (Zone d) = [] then zoneCopyFrom (Zone d) (Some (Zone s)) else Zone d)"
  "Fingerprint (deploymentMergeFrom d (Some s)) = Fingerprint d"
  "Index (deploymentMergeFrom d (Some s)) = Index d"
  "ChiDeployment.more (deploymentMergeFrom d (Some s)) = ChiDeployment.more d"
  by (simp_all add: deploymentMergeFrom_def Let_def)

lemma zoneCopyFrom_twice:
  "zoneCopyFrom (zoneCopyFrom z (Some s)) (Some s) = zoneCopyFrom z (Some s)"
  by (simp add: zoneCopyFrom_def)

lemma deploymentMergeFrom_twice:
  "deploymentMergeFrom (deploymentMergeFrom d (Some s)) (Some s) = deploymentMergeFrom d (Some s)"
  by (rule ChiDeployment.equality) (simp_all add: deploymentMergeFrom_fields zoneCopyFrom_twice)

lemma deploymentMergeFrom_derived:
  "deploymentMergeFrom (d\<lparr>Fingerprint := f, Index := i\<rparr>) (Some s) =
   (deploymentMergeFrom d (Some s))\<lparr>Fingerprint := f, Index := i\<rparr>"
  by (rule ChiDeployment.equality) (simp_all add: deploymentMergeFrom_fields)

lemma update_fresh_key:
  "k \<notin> fst ` set al \<Longrightarrow> AList.update k v al = al @ [(k, v)]"
  by (induction al) auto

lemma copy_labels_from:
  "distinct (map fst (acc @ es)) \<Longrightarrow>
   fold (\<lambda>(k, v) tmp. AList.update k v tmp) es acc = acc @ es"
proof (induction es arbitrary: acc)
  case Nil
  then show ?case by simp
next
  case (Cons e es)
  obtain k v where e: "e = (k, v)" by (cases e)
  have fresh: "k \<notin> fst ` set acc"
    using Cons.prems e by auto
  have "fold (\<lambda>(k, v) tmp. AList.update k v tmp) es (acc @ [(k, v)]) = (acc @ [(k, v)]) @ es"
    by (rule Cons.IH) (use Cons.prems e in simp)
  then show ?case
    using e by (simp add: update_fresh_key [OF fresh])
qed

lemma copy_labels:
  "distinct (map fst es) \<Longrightarrow> fold (\<lambda>(k, v) tmp. AList.update k v tmp) es [] = es"
  using copy_labels_from [of "[]" es] by simp

lemma zoneCopyFrom_labels:
  "distinct (map fst (MatchLabels s)) \<Longrightarrow>
   MatchLabels (zoneCopyFrom z (Some s)) = MatchLabels s"
  by (simp add: zoneCopyFrom_def copy_labels)

lemma fold_map_assign:
  "a < length st \<Longrightarrow>
   fold (\<lambda>(k, v) st'. map_assign st' a k v) es st =
     st[a := fold (\<lambda>(k, v) tmp. AList.update k v tmp) es (st ! a)]"
  by (induction es arbitrary: st) (auto simp: map_assign_def)

lemma zoneCopyFrom_store_result:
  assumes "valid_ref st (MatchLabels_ref s)"
  shows "zoneCopyFrom_store st dst (Some s) =
     (st @ [fold (\<lambda>(k, v) tmp. AList.update k v tmp) (map_entries st (MatchLabels_ref s)) []],
      dst\<lparr>MatchLabels_ref := Some (length st)\<rparr>)"
proof -
  have "map_entries (st @ [[]]) (MatchLabels_ref s) = map_entries st (MatchLabels_ref s)"
    using assms by (auto simp: map_entries_def valid_ref_def nth_append split: option.splits)
  then show ?thesis
    by (simp add: zoneCopyFrom_store_def map_make_def fold_map_assign)
qed

lemma deploymentMergeFrom_store_refines:
  assumes "valid_ref st (MatchLabels_ref (ref_Zone dst))"
    and "valid_ref st (MatchLabels_ref (ref_Zone src))"
    and "deploymentMergeFrom_store st dst (Some src) = (st', dst')"
  shows "deref st' dst' = deploymentMergeFrom (deref st dst) (Some (deref st src))"
    and "\<forall>a<length st. st' ! a = st ! a"
  using assms(1,3)
  by (auto simp: deploymentMergeFrom_store_def deploymentMergeFrom_def Let_def deref_def
      zoneCopyFrom_store_result [OF assms(2)] zoneCopyFrom_def map_entries_def valid_ref_def
      nth_append split: if_splits option.splits)

text \<open>
  C3. \<open>deploymentMergeFrom(dst, src)\<close> over the store, for references that point into
  the store and a source map with distinct keys (as every Go map has). If \<open>dst.Zone\<close> has no
  entry, \<open>dst\<close> receives a reference to a map object that did not exist before, hence not
  the one of \<open>src\<close>, holding exactly the entries of \<open>src.Zone\<close>; the parent's object is
  untouched, an assignment through the child's reference afterwards does not change what
  the parent's reference reads, and an assignment to any object that existed before does not
  change what the child's reads. If \<open>dst.Zone\<close> has an entry, the store and the reference of
  \<open>dst.Zone\<close> are unchanged: \<open>dst\<close> reads the same labels as before and none of the parent's.
\<close>

theorem zone_merge_all_or_nothing:
  assumes "valid_ref st (MatchLabels_ref (ref_Zone dst))"
    and "valid_ref st (MatchLabels_ref (ref_Zone src))"
    and "distinct (map fst (map_entries st (MatchLabels_ref (ref_Zone src))))"
    and "deploymentMergeFrom_store st dst (Some src) = (st', dst')"
  shows "if length (map_entries st (MatchLabels_ref (ref_Zone dst))) = 0
         then MatchLabels_ref (ref_Zone dst') = Some (length st)
            \<and> MatchLabels_ref (ref_Zone dst') \<noteq> MatchLabels_ref (ref_Zone src)
            \<and> map_entries st' (MatchLabels_ref (ref_Zone dst')) =
                map_entries st (MatchLabels_ref (ref_Zone src))
            \<and> map_entries st' (MatchLabels_ref (ref_Zone src)) =
                map_entries st (MatchLabels_ref (ref_Zone src))
            \<and> (\<forall>k v. map_entries (map_assign st' (length st) k v) (MatchLabels_ref (ref_Zone src)) =
                   map_entries st (MatchLabels_ref (ref_Zone src)))
            \<and> (\<forall>a k v. a < length st \<longrightarrow>
                   map_entries (map_assign st' a k v) (MatchLabels_ref (ref_Zone dst')) =
                   map_entries st' (MatchLabels_ref (ref_Zone dst')))
         else st' = st \<and> ref_Zone dst' = ref_Zone dst"
proof (cases "length (map_entries st (MatchLabels_ref (ref_Zone dst))) = 0")
  case False
  then show ?thesis
    using assms(4)
    by (auto simp: deploymentMergeFrom_store_def Let_def split: if_splits)
next
  case True
  let ?es = "map_entries st (MatchLabels_ref (ref_Zone src))"
  have st': "st' = st @ [?es]" and z: "MatchLabels_ref (ref_Zone dst') = Some (length st)"
    using assms(4) True
    by (auto simp: deploymentMergeFrom_store_def Let_def zoneCopyFrom_store_result [OF assms(2)]
        copy_labels [OF assms(3)] split: if_splits)
  have src: "MatchLabels_ref (ref_Zone src) \<noteq> Some (length st)"
    using assms(2) by (auto simp: valid_ref_def)
  have keep: "map_entries (st @ [?es]) (MatchLabels_ref (ref_Zone src)) = ?es"
    using assms(2) by (auto simp: map_entries_def valid_ref_def nth_append split: option.splits)
  have iso1: "map_entries (map_assign st' (length st) k v) (MatchLabels_ref (ref_Zone src)) = ?es"
    for k v
    using assms(2) unfolding st'
    by (auto simp: map_entries_def map_assign_def valid_ref_def nth_append split: option.splits)
  have iso2: "map_entries (map_assign st' a k v) (Some (length st)) = map_entries st' (Some (length st))"
    if "a < length st" for a k v
    using that unfolding st' by (simp add: map_entries_def map_assign_def)
  show ?thesis
    using True z src keep iso1 iso2 by (simp add: st' map_entries_def)
qed

theorem zone_merge_all_or_nothing_witness:
  "deploymentMergeFrom_store example_store (example_deployment_ref None)
      (Some (example_deployment_ref (Some 0))) =
     (example_store @ [[(''zone'', ''z1''), (''kind'', ''ssd'')]], example_deployment_ref (Some 2))
   \<and> map_entries (example_store @ [[(''zone'', ''z1''), (''kind'', ''ssd'')]]) (Some 2) =
       map_entries example_store (Some 0)
   \<and> deploymentMergeFrom_store example_store (example_deployment_ref (Some 1))
      (Some (example_deployment_ref (Some 0))) = (example_store, example_deployment_ref (Some 1))
   \<and> map_entries example_store (Some 1) = [(''rack'', ''r1'')]"
proof -
  have m1: "deploymentMergeFrom_store example_store (example_deployment_ref None)
      (Some (example_deployment_ref (Some 0))) =
     (example_store @ [[(''zone'', ''z1''), (''kind'', ''ssd'')]], example_deployment_ref (Some 2))"
    by (simp add: deploymentMergeFrom_store_def zoneCopyFrom_store_def map_make_def
        map_assign_def map_entries_def example_store_def example_deployment_ref_def)
  have m2: "deploymentMergeFrom_store example_store (example_deployment_ref (Some 1))
      (Some (example_deployment_ref (Some 0))) = (example_store, example_deployment_ref (Some 1))"
    by (simp add: deploymentMergeFrom_store_def map_entries_def example_store_def
        example_deployment_ref_def)
  have v0: "valid_ref example_store (MatchLabels_ref (ref_Zone (example_deployment_ref (Some 0))))"
    and v1: "valid_ref example_store (MatchLabels_ref (ref_Zone (example_deployment_ref (Some 1))))"
    and vn: "valid_ref example_store (MatchLabels_ref (ref_Zone (example_deployment_ref None)))"
    and d0: "distinct (map fst (map_entries example_store
               (MatchLabels_ref (ref_Zone (example_deployment_ref (Some 0))))))"
    by (simp_all add: valid_ref_def example_store_def example_deployment_ref_def map_entries_def)
  show ?thesis
    using zone_merge_all_or_nothing [OF vn v0 d0 m1] zone_merge_all_or_nothing [OF v1 v0 d0 m2]
      m1 m2
    by (simp add: example_deployment_ref_def map_entries_def example_store_def)
qed

section \<open>The canonical string\<close>

lemma strings_Join_Cons:
  "strings_Join (x # xs) sep = x @ concat (map (\<lambda>y. sep @ y) xs)"
  by (induction xs arbitrary: x) simp_all

lemma deploymentGenerateString_closed_form:
  "deploymentGenerateString d =
     PodTemplate d @ ''::'' @ VolumeClaimTemplate d @ ''::'' @ Scenario d @ ''::'' @
     concat (map render_label (sorted_labels (MatchLabels (Zone d))))"
  by (simp add: deploymentGenerateString_def Let_def strings_Join_Cons sorted_labels_def
      render_label_def comp_def del: strings_Join.simps)

text \<open>
  C5. The comment of \<open>deploymentGenerateString\<close> gives the form
  \<open>PodTemplate::VolumeClaimTemplate::Scenario::Key1=Val1::Key2=Val2\<close>, and so does the claim:
  the three fields, each followed by \<open>::\<close>, then the labels joined by \<open>::\<close>. In the code the
  first element handed to \<open>strings.Join\<close> already ends with \<open>::\<close>, and \<open>Join\<close> puts another
  \<open>::\<close> before every label, the first one too (\<open>deploymentGenerateString_closed_form\<close>):
  with the one label \<open>k=x\<close> the code returns \<open>p::v::s::::k=x\<close>, not \<open>p::v::s::k=x\<close>.
\<close>

theorem canonical_string_doubles_separator:
  "deploymentGenerateString (example_deployment ''p'' ''v'' [(''k'', ''x'')]) = ''p::v::s::::k=x''
   \<and> deploymentGenerateString (example_deployment ''p'' ''v'' [(''k'', ''x'')]) \<noteq> ''p::v::s::k=x''"
  by (simp add: deploymentGenerateString_def example_deployment_def match_label_def)

section \<open>What a fingerprint depends on\<close>

text \<open>
  C9. Take two runs of the replica step, in two installations with the same \<open>Namespace\<close> and
  \<open>Name\<close>, whose resolved deployments carry the same \<open>PodTemplate\<close>, \<open>VolumeClaimTemplate\<close>
  and \<open>Scenario\<close> and the same zone labels (as a mapping: the same key/value pairs, in any
  order). Then both replicas receive the same fingerprint, and
  \<open>deploymentGenerateFingerprint\<close> returns it for both deployments, whatever the shards'
  deployments, the replicas' previous contents, the usage counted so far (hence the position
  and the \<open>Index\<close>) and the rest of the two installations are.
\<close>

theorem fingerprint_function_of_six_values:
  assumes "Namespace chi1 = Namespace chi2"
    and "Name chi1 = Name chi2"
    and "normalizeReplica H chi1 sd1 r1 dn1 = (r1', dn1')"
    and "normalizeReplica H chi2 sd2 r2 dn2 = (r2', dn2')"
    and "PodTemplate (replica_Deployment r1') = PodTemplate (replica_Deployment r2')"
    and "VolumeClaimTemplate (replica_Deployment r1') = VolumeClaimTemplate (replica_Deployment r2')"
    and "Scenario (replica_Deployment r1') = Scenario (replica_Deployment r2')"
    and "distinct (map fst (MatchLabels (Zone (replica_Deployment r1'))))"
    and "distinct (map fst (MatchLabels (Zone (replica_Deployment r2'))))"
    and "set (MatchLabels (Zone (replica_Deployment r1'))) =
         set (MatchLabels (Zone (replica_Deployment r2')))"
  shows "Fingerprint (replica_Deployment r1') = Fingerprint (replica_Deployment r2')
       \<and> deploymentGenerateFingerprint H chi1 (replica_Deployment r1') =
           deploymentGenerateFingerprint H chi2 (replica_Deployment r2')"
proof -
  have eq: "deploymentGenerateFingerprint H chi1 (replica_Deployment r1') =
            deploymentGenerateFingerprint H chi2 (replica_Deployment r2')"
    unfolding deploymentGenerateFingerprint_def
    using assms(1,2) deploymentGenerateString_cong [OF assms(5-10)] by simp
  have "Fingerprint (replica_Deployment r1') =
        deploymentGenerateFingerprint H chi1 (replica_Deployment r1')"
    using assms(3) by (auto simp: normalizeReplica_def Let_def)
  moreover have "Fingerprint (replica_Deployment r2') =
        deploymentGenerateFingerprint H chi2 (replica_Deployment r2')"
    using assms(4) by (auto simp: normalizeReplica_def Let_def)
  ultimately show ?thesis
    using eq by simp
qed

lemma example_replica_step1:
  "normalizeReplica plain_hash (example_installation [])
      zero_ChiDeployment (example_replica ''p'' ''v'' [(''zone'', ''z1''), (''kind'', ''ssd'')]) Map.empty =
   (\<lparr>replica_Deployment = (example_deployment ''p'' ''v'' [(''zone'', ''z1''), (''kind'', ''ssd'')])
        \<lparr>Fingerprint := ''nschip::v::s::::kind=ssd::zone=z1'', Index := 0\<rparr>\<rparr>,
    [''nschip::v::s::::kind=ssd::zone=z1'' \<mapsto> 1])"
  by (simp add: normalizeReplica_def deploymentMergeFrom_def zoneCopyFrom_def Let_def
      deploymentGenerateFingerprint_def deploymentGenerateString_def match_label_def
      example_installation_def example_replica_def example_deployment_def plain_hash_def
      zero_ChiDeployment_def named_number_get_def)

lemma example_replica_step2:
  "normalizeReplica plain_hash
      ((example_installation [])\<lparr>Spec :=
         \<lparr>Defaults = \<lparr>ReplicasUseFQDN = 1, defaults_Deployment = example_deployment ''x'' ''y'' []\<rparr>,
          Configuration = \<lparr>Clusters = []\<rparr>\<rparr>\<rparr>)
      (example_deployment ''p'' ''v'' [(''kind'', ''ssd''), (''zone'', ''z1'')])
      zero_ChiClusterLayoutShardReplica [''nschip::v::s::::kind=ssd::zone=z1'' \<mapsto> 3] =
   (\<lparr>replica_Deployment = (example_deployment ''p'' ''v'' [(''kind'', ''ssd''), (''zone'', ''z1'')])
        \<lparr>Fingerprint := ''nschip::v::s::::kind=ssd::zone=z1'', Index := 3\<rparr>\<rparr>,
    [''nschip::v::s::::kind=ssd::zone=z1'' \<mapsto> 4])"
  by (simp add: normalizeReplica_def deploymentMergeFrom_def zoneCopyFrom_def Let_def
      deploymentGenerateFingerprint_def deploymentGenerateString_def match_label_def
      example_installation_def example_replica_def example_deployment_def plain_hash_def
      zero_ChiDeployment_def zero_ChiClusterLayoutShardReplica_def named_number_get_def)

theorem fingerprint_function_of_six_values_witness:
  "Fingerprint ((example_deployment ''p'' ''v'' [(''zone'', ''z1''), (''kind'', ''ssd'')])
        \<lparr>Fingerprint := ''nschip::v::s::::kind=ssd::zone=z1'', Index := 0\<rparr>) =
   Fingerprint ((example_deployment ''p'' ''v'' [(''kind'', ''ssd''), (''zone'', ''z1'')])
        \<lparr>Fingerprint := ''nschip::v::s::::kind=ssd::zone=z1'', Index := 3\<rparr>)
   \<and> set [(''zone'', ''z1''), (''kind'', ''ssd'')] = set [(''kind'', ''ssd''), (''zone'', ''z1'')]
   \<and> [(''zone'', ''z1''), (''kind'', ''ssd'')] \<noteq> [(''kind'', ''ssd''), (''zone'', ''z1'')]"
  using fingerprint_function_of_six_values [OF _ _ example_replica_step1 example_replica_step2]
  by (auto simp add: example_installation_def example_deployment_def)

section \<open>When fingerprints tell deployments apart\<close>

lemma set_sorted_labels:
  assumes "distinct (map fst z)"
  shows "set (sorted_labels z) = set z"
proof -
  have "match_label z k = v" if "(k, v) \<in> set z" for k v
    using that assms by (simp add: match_label_def)
  then have "map ((\<lambda>key. (key, match_label z key)) \<circ> fst) z = z"
    by (intro map_idI) auto
  then have "set z = (\<lambda>key. (key, match_label z key)) ` set (map fst z)"
    by (metis list.map_comp set_map)
  then show ?thesis
    by (simp add: sorted_labels_def)
qed

lemma render_label_pair: "render_label (k, v) = ''::'' @ k @ ''='' @ v"
  by (simp add: render_label_def)

lemma split_at_first:
  assumes "c \<notin> set a" and "c \<notin> set a'" and "a @ c # r = a' @ c # r'"
  shows "a = a' \<and> r = r'"
  using assms
proof (induction a arbitrary: a')
  case Nil
  then show ?case by (cases a') auto
next
  case (Cons x a)
  then show ?case by (cases a') auto
qed

lemma split_at_end_or_first:
  assumes "c \<notin> set a" and "c \<notin> set a'"
    and "r = [] \<or> hd r = c" and "r' = [] \<or> hd r' = c"
    and "a @ r = a' @ r'"
  shows "a = a' \<and> r = r'"
proof (cases r)
  case Nil
  show ?thesis
  proof (cases r')
    case Nil
    then show ?thesis using \<open>r = []\<close> assms(5) by simp
  next
    case (Cons y ys)
    then have "c \<in> set (a' @ r')" using assms(4) by auto
    then have "c \<in> set a" using assms(5) \<open>r = []\<close> by simp
    then show ?thesis using assms(1) by simp
  qed
next
  case (Cons x xs)
  then have x: "x = c" using assms(3) by simp
  show ?thesis
  proof (cases r')
    case Nil
    have "c \<in> set (a @ r)" using Cons x by simp
    then have "c \<in> set a'" using assms(5) Nil by simp
    then show ?thesis using assms(2) by simp
  next
    case (Cons y ys)
    then have "y = c" using assms(4) by simp
    then show ?thesis
      using split_at_first [OF assms(1,2), of xs ys] assms(5) \<open>r = x # xs\<close> x Cons by simp
  qed
qed

lemma concat_render_starts:
  "concat (map render_label ls) = [] \<or> hd (concat (map render_label ls)) = CHR '':''"
  by (cases ls) (simp_all add: render_label_def)

lemma concat_render_inject:
  assumes "list_all (\<lambda>(k, v). CHR '':'' \<notin> set k \<and> CHR ''='' \<notin> set k \<and> CHR '':'' \<notin> set v) ls"
    and "list_all (\<lambda>(k, v). CHR '':'' \<notin> set k \<and> CHR ''='' \<notin> set k \<and> CHR '':'' \<notin> set v) ls'"
    and "concat (map render_label ls) = concat (map render_label ls')"
  shows "ls = ls'"
  using assms
proof (induction ls arbitrary: ls')
  case Nil
  then show ?case by (cases ls') (simp_all add: render_label_def)
next
  case (Cons l ls)
  show ?case
  proof (cases ls')
    case Nil
    then show ?thesis using Cons.prems(3) by (cases l) (simp add: render_label_pair)
  next
    case (Cons l' ls1)
    obtain k v where l: "l = (k, v)" by (cases l)
    obtain k' v' where l': "l' = (k', v')" by (cases l')
    let ?r = "concat (map render_label ls)" and ?r' = "concat (map render_label ls1)"
    have free: "CHR ''='' \<notin> set k" "CHR ''='' \<notin> set k'" "CHR '':'' \<notin> set v" "CHR '':'' \<notin> set v'"
      using Cons.prems(1,2) Cons l l' by simp_all
    have "k @ CHR ''='' # (v @ ?r) = k' @ CHR ''='' # (v' @ ?r')"
      using Cons.prems(3) Cons l l' by (simp add: render_label_pair)
    from split_at_first [OF free(1,2) this] have k: "k = k'" and rest: "v @ ?r = v' @ ?r'"
      by simp_all
    from split_at_end_or_first [OF free(3,4) concat_render_starts concat_render_starts rest]
    have v: "v = v'" and r: "?r = ?r'" by simp_all
    have "ls = ls1"
      by (rule Cons.IH) (use Cons.prems(1,2) Cons r in simp_all)
    then show ?thesis
      using Cons l l' k v by simp
  qed
qed

lemma sorted_labels_free:
  assumes "list_all (\<lambda>(k, v). CHR '':'' \<notin> set k \<and> CHR ''='' \<notin> set k \<and> CHR '':'' \<notin> set v) z"
    and "distinct (map fst z)"
  shows "list_all (\<lambda>(k, v). CHR '':'' \<notin> set k \<and> CHR ''='' \<notin> set k \<and> CHR '':'' \<notin> set v)
           (sorted_labels z)"
  using assms set_sorted_labels [OF assms(2)] by (simp add: list_all_iff)

lemma deploymentGenerateString_inject:
  assumes "separator_free d1" and "separator_free d2"
    and "distinct (map fst (MatchLabels (Zone d1)))"
    and "distinct (map fst (MatchLabels (Zone d2)))"
    and "deploymentGenerateString d1 = deploymentGenerateString d2"
  shows "PodTemplate d1 = PodTemplate d2 \<and> VolumeClaimTemplate d1 = VolumeClaimTemplate d2 \<and>
         Scenario d1 = Scenario d2 \<and> set (MatchLabels (Zone d1)) = set (MatchLabels (Zone d2))"
proof -
  let ?c = "CHR '':''"
  let ?L1 = "concat (map render_label (sorted_labels (MatchLabels (Zone d1))))"
  let ?L2 = "concat (map render_label (sorted_labels (MatchLabels (Zone d2))))"
  have f1: "?c \<notin> set (PodTemplate d1)" "?c \<notin> set (VolumeClaimTemplate d1)" "?c \<notin> set (Scenario d1)"
    and f2: "?c \<notin> set (PodTemplate d2)" "?c \<notin> set (VolumeClaimTemplate d2)" "?c \<notin> set (Scenario d2)"
    using assms(1,2) by (simp_all add: separator_free_def)
  have "PodTemplate d1 @ ?c # (?c # VolumeClaimTemplate d1 @ ''::'' @ Scenario d1 @ ''::'' @ ?L1) =
        PodTemplate d2 @ ?c # (?c # VolumeClaimTemplate d2 @ ''::'' @ Scenario d2 @ ''::'' @ ?L2)"
    using assms(5) by (simp add: deploymentGenerateString_closed_form)
  from split_at_first [OF f1(1) f2(1) this]
  have p: "PodTemplate d1 = PodTemplate d2"
    and "VolumeClaimTemplate d1 @ ?c # (?c # Scenario d1 @ ''::'' @ ?L1) =
         VolumeClaimTemplate d2 @ ?c # (?c # Scenario d2 @ ''::'' @ ?L2)"
    by simp_all
  from split_at_first [OF f1(2) f2(2) this(2)]
  have v: "VolumeClaimTemplate d1 = VolumeClaimTemplate d2"
    and "Scenario d1 @ ?c # (?c # ?L1) = Scenario d2 @ ?c # (?c # ?L2)"
    by simp_all
  from split_at_first [OF f1(3) f2(3) this(2)]
  have s: "Scenario d1 = Scenario d2" and L: "?L1 = ?L2"
    by simp_all
  have "sorted_labels (MatchLabels (Zone d1)) = sorted_labels (MatchLabels (Zone d2))"
    by (rule concat_render_inject [OF _ _ L])
      (use assms(1-4) in \<open>simp_all add: separator_free_def sorted_labels_free\<close>)
  then have "set (MatchLabels (Zone d1)) = set (MatchLabels (Zone d2))"
    using set_sorted_labels [OF assms(3)] set_sorted_labels [OF assms(4)] by simp
  then show ?thesis
    using p v s by simp
qed

text \<open>
  What the fingerprint does tell apart. After \<open>NormalizeCHI\<close>, take two replicas of clusters
  of the installation whose layout type is \<open>Standard\<close> or \<open>Advanced\<close>, and let their resolved
  deployments differ in \<open>PodTemplate\<close>, \<open>VolumeClaimTemplate\<close>, \<open>Scenario\<close> or the set of zone
  labels. If neither deployment has a colon in a template name, the scenario, a label key or
  a label value, nor an equals sign in a label key, then the two texts that are hashed
  differ: the fingerprints are equal only if the hash maps two different texts to one
  digest, and they differ if the hash is injective.
\<close>

lemma fingerprints_differ_unless_hash_collides:
  assumes "NormalizeCHI H K chi = Inr (chi', dn)"
    and "c1 \<in> set (installation_clusters chi')" and "recognized_layout K c1"
    and "c2 \<in> set (installation_clusters chi')" and "recognized_layout K c2"
    and "d1 \<in> set (cluster_deployments c1)" and "d2 \<in> set (cluster_deployments c2)"
    and "separator_free d1" and "separator_free d2"
    and "distinct (map fst (MatchLabels (Zone d1)))"
    and "distinct (map fst (MatchLabels (Zone d2)))"
    and "PodTemplate d1 \<noteq> PodTemplate d2 \<or> VolumeClaimTemplate d1 \<noteq> VolumeClaimTemplate d2 \<or>
         Scenario d1 \<noteq> Scenario d2 \<or> set (MatchLabels (Zone d1)) \<noteq> set (MatchLabels (Zone d2))"
  shows "deploymentGenerateString d1 \<noteq> deploymentGenerateString d2
       \<and> (Fingerprint d1 = Fingerprint d2 \<longrightarrow> (\<exists>x y. x \<noteq> y \<and> H x = H y))
       \<and> (inj H \<longrightarrow> Fingerprint d1 \<noteq> Fingerprint d2)"
proof -
  let ?chi = "normalizeDefaults K chi"
  let ?x = "Namespace ?chi @ Name ?chi @ deploymentGenerateString d1"
  let ?y = "Namespace ?chi @ Name ?chi @ deploymentGenerateString d2"
  have ne: "deploymentGenerateString d1 \<noteq> deploymentGenerateString d2"
    using deploymentGenerateString_inject [OF assms(8-11)] assms(12) by blast
  then have xy: "?x \<noteq> ?y" by simp
  from installation_cluster_counted [OF assms(1,2,3)] obtain cdn1 where
    k1: "counted H ?chi [] (cluster_deployments c1) cdn1" ..
  from installation_cluster_counted [OF assms(1,4,5)] obtain cdn2 where
    k2: "counted H ?chi [] (cluster_deployments c2) cdn2" ..
  have fp: "Fingerprint d1 = H ?x" "Fingerprint d2 = H ?y"
    using k1 k2 assms(6,7)
    by (auto simp: counted_def list_all_iff fingerprinted_def deploymentGenerateFingerprint_def)
  have "\<exists>x y. x \<noteq> y \<and> H x = H y" if "Fingerprint d1 = Fingerprint d2"
    using that xy fp by metis
  moreover have "Fingerprint d1 \<noteq> Fingerprint d2" if "inj H"
    using that xy fp by (auto dest: injD)
  ultimately show ?thesis
    using ne by blast
qed

lemma fingerprints_differ_unless_hash_collides_instance:
  "case NormalizeCHI plain_hash example_constants example_distinct of
     Inl e \<Rightarrow> False
   | Inr (chi', dn) \<Rightarrow>
       map (\<lambda>c. (Type (Layout c),
                  map (\<lambda>d. (PodTemplate d, MatchLabels (Zone d), separator_free d, Fingerprint d))
                    (cluster_deployments c)))
         (installation_clusters chi') =
       [(''Advanced'',
         [(''p'', [(''zone'', ''z1'')], True, ''nschip::v::s::::zone=z1''),
          (''p'', [(''zone'', ''z2'')], True, ''nschip::v::s::::zone=z2'')])]"
proof -
  let ?row = "\<lambda>d. (PodTemplate d, MatchLabels (Zone d), separator_free d, Fingerprint d)"
  let ?tab = "\<lambda>c. (Type (Layout c), map ?row (cluster_deployments c))"
  have run: "case NormalizeCHI plain_hash example_constants example_distinct of
     Inl e \<Rightarrow> False
   | Inr (chi', dn) \<Rightarrow>
       map ?tab (installation_clusters chi') =
       [(''Advanced'',
         [(''p'', [(''zone'', ''z1'')], True, ''nschip::v::s::::zone=z1''),
          (''p'', [(''zone'', ''z2'')], True, ''nschip::v::s::::zone=z2'')])]"
    by code_simp
  then obtain chi' dn where
    r: "NormalizeCHI plain_hash example_constants example_distinct = Inr (chi', dn)"
    and tab: "map ?tab (installation_clusters chi') =
       [(''Advanced'',
         [(''p'', [(''zone'', ''z1'')], True, ''nschip::v::s::::zone=z1''),
          (''p'', [(''zone'', ''z2'')], True, ''nschip::v::s::::zone=z2'')])]"
    by (auto split: sum.splits)
  from tab obtain c where cs: "installation_clusters chi' = [c]"
    and t: "?tab c = (''Advanced'',
         [(''p'', [(''zone'', ''z1'')], True, ''nschip::v::s::::zone=z1''),
          (''p'', [(''zone'', ''z2'')], True, ''nschip::v::s::::zone=z2'')])"
    by (auto simp: map_eq_Cons_conv)
  from t obtain a b where ds: "cluster_deployments c = [a, b]"
    and a: "?row a = (''p'', [(''zone'', ''z1'')], True, ''nschip::v::s::::zone=z1'')"
    and b: "?row b = (''p'', [(''zone'', ''z2'')], True, ''nschip::v::s::::zone=z2'')"
    by (auto simp: map_eq_Cons_conv)
  have rec: "recognized_layout example_constants c"
    using t by (simp add: recognized_layout_def example_constants_def)
  have "deploymentGenerateString a \<noteq> deploymentGenerateString b
       \<and> (Fingerprint a = Fingerprint b \<longrightarrow> (\<exists>x y. x \<noteq> y \<and> plain_hash x = plain_hash y))
       \<and> (inj plain_hash \<longrightarrow> Fingerprint a \<noteq> Fingerprint b)"
    by (rule fingerprints_differ_unless_hash_collides [OF r _ rec _ rec])
      (use cs ds a b in auto)
  then show ?thesis
    using run by simp
qed

text \<open>
  The separator \<open>::\<close> is not escaped, so two deployments that differ in \<open>PodTemplate\<close> and
  \<open>VolumeClaimTemplate\<close> can have one canonical string, and then one fingerprint in every
  installation and under every hash: \<open>a::b\<close> with \<open>c\<close>, and \<open>a\<close> with \<open>b::c\<close>.
\<close>

lemma fingerprint_collision_on_separator:
  "deploymentGenerateFingerprint H chi (example_deployment ''a::b'' ''c'' []) =
   deploymentGenerateFingerprint H chi (example_deployment ''a'' ''b::c'' [])
   \<and> PodTemplate (example_deployment ''a::b'' ''c'' []) \<noteq> PodTemplate (example_deployment ''a'' ''b::c'' [])
   \<and> VolumeClaimTemplate (example_deployment ''a::b'' ''c'' []) \<noteq>
       VolumeClaimTemplate (example_deployment ''a'' ''b::c'' [])"
  by (simp add: deploymentGenerateFingerprint_def deploymentGenerateString_def
      example_deployment_def)

text \<open>
  C7. The code does not keep the fingerprints of different deployments apart, although the
  comment on \<open>deploymentGenerateID\<close> has the fingerprint "unique for each unique deployment
  inside ClickHouseInstallation object". Two replicas of one shard, one with \<open>PodTemplate\<close>
  \<open>a::b\<close> and \<open>VolumeClaimTemplate\<close> \<open>c\<close>, the other with \<open>a\<close> and \<open>b::c\<close>: under every hash
  \<open>NormalizeCHI\<close> gives both the fingerprint of the one text \<open>nschia::b::c::s::\<close>, numbers
  the second as a repetition of the first (\<open>Index\<close> \<open>1\<close>), and counts the fingerprint twice.
\<close>

theorem fingerprint_collides_on_unescaped_separator:
  "case NormalizeCHI H example_constants example_colliding of
     Inl e \<Rightarrow> False
   | Inr (chi', dn) \<Rightarrow>
       map (\<lambda>c. map (\<lambda>d. (PodTemplate d, VolumeClaimTemplate d, Scenario d, MatchLabels (Zone d),
                            Fingerprint d, Index d)) (cluster_deployments c))
         (installation_clusters chi') =
       [[(''a::b'', ''c'', ''s'', [], H ''nschia::b::c::s::'', 0),
         (''a'', ''b::c'', ''s'', [], H ''nschia::b::c::s::'', 1)]]
       \<and> dn (H ''nschia::b::c::s::'') = Some 2"
  by code_simp

section \<open>Expansion of the layouts\<close>

lemma replicas_pass_fresh:
  assumes "replicas_pass H chi sd (replicate n zero_ChiClusterLayoutShardReplica) dn = (rs', dn')"
    and "r \<in> set rs'"
  shows "\<exists>idx. replica_Deployment r =
     (deploymentMergeFrom zero_ChiDeployment (Some sd))
       \<lparr>Fingerprint :=
          deploymentGenerateFingerprint H chi (deploymentMergeFrom zero_ChiDeployment (Some sd)),
        Index := idx\<rparr>"
  using assms
proof (induction n arbitrary: dn rs' dn')
  case 0
  then show ?case by simp
next
  case (Suc n)
  obtain r1 dn1 where step:
    "normalizeReplica H chi sd zero_ChiClusterLayoutShardReplica dn = (r1, dn1)"
    by (cases "normalizeReplica H chi sd zero_ChiClusterLayoutShardReplica dn")
  obtain rs1 dn2 where rest:
    "replicas_pass H chi sd (replicate n zero_ChiClusterLayoutShardReplica) dn1 = (rs1, dn2)"
    by (cases "replicas_pass H chi sd (replicate n zero_ChiClusterLayoutShardReplica) dn1")
  have res: "rs' = r1 # rs1"
    using Suc.prems(1) step rest by simp
  show ?case
  proof (cases "r = r1")
    case True
    then show ?thesis
      using step
      by (auto simp: normalizeReplica_def Let_def zero_ChiClusterLayoutShardReplica_def)
  next
    case False
    then have "r \<in> set rs1" using Suc.prems(2) res by simp
    then show ?thesis by (rule Suc.IH [OF rest])
  qed
qed

lemma standard_shards_pass:
  assumes "0 \<le> n" and "n \<le> maxLenReplicas K"
  shows "\<exists>shs' dn'. shards_pass (standardLayoutShard H K chi n) shs dn = Inr (shs', dn')
       \<and> length shs' = length shs
       \<and> (\<forall>sh\<in>set shs'. int (length (Replicas sh)) = n \<and> shard_ReplicasCount sh = n
              \<and> InternalReplication sh = stringTrue K)"
proof (induction shs arbitrary: dn)
  case Nil
  then show ?case by simp
next
  case (Cons s ss)
  obtain rs1 dn1 where rp: "replicas_pass H chi (shard_Deployment s)
      (replicate (nat n) zero_ChiClusterLayoutShardReplica) dn = (rs1, dn1)"
    by (cases "replicas_pass H chi (shard_Deployment s)
      (replicate (nat n) zero_ChiClusterLayoutShardReplica) dn")
  let ?s1 = "s\<lparr>shard_ReplicasCount := n, InternalReplication := stringTrue K, Replicas := rs1\<rparr>"
  have step: "standardLayoutShard H K chi n s dn = Inr (?s1, dn1)"
    using assms rp by (simp add: standardLayoutShard_pass)
  have len: "int (length rs1) = n"
    using replicas_pass_length [OF rp] assms(1) by simp
  from Cons.IH [of dn1] obtain ss' dn' where
    rest: "shards_pass (standardLayoutShard H K chi n) ss dn1 = Inr (ss', dn')"
    and l: "length ss' = length ss"
    and p: "\<forall>sh\<in>set ss'. int (length (Replicas sh)) = n \<and> shard_ReplicasCount sh = n
              \<and> InternalReplication sh = stringTrue K"
    by blast
  have "shards_pass (standardLayoutShard H K chi n) (s # ss) dn = Inr (?s1 # ss', dn')"
    using step rest by simp
  then show ?case
    using l p len by simp
qed

text \<open>
  C6. A cluster of \<open>Standard\<close> layout is normalized without a panic if its counts are not
  negative and, once a count of \<open>0\<close> has become \<open>1\<close>, not above the largest lengths that
  \<open>make\<close> accepts. Afterwards a count that was \<open>0\<close> is \<open>1\<close> and any other count is
  unchanged, the cluster has exactly \<open>ShardsCount\<close> shards, and every shard has exactly
  \<open>ReplicasCount\<close> replicas, carries that count, and has \<open>InternalReplication\<close> equal to the
  canonical true value. With both counts \<open>0\<close> that is one shard of one replica.
\<close>

theorem standard_layout_expansion:
  assumes "Type (Layout cl) = clusterLayoutTypeStandard K"
    and "0 \<le> ShardsCount (Layout cl)"
    and "max 1 (ShardsCount (Layout cl)) \<le> maxLenShards K"
    and "0 \<le> ReplicasCount (Layout cl)"
    and "max 1 (ReplicasCount (Layout cl)) \<le> maxLenReplicas K"
  shows "\<exists>cl' dn.
      normalizeSpecConfigurationClustersCluster H K chi cl = Inr (cl', dn)
    \<and> ShardsCount (Layout cl') =
        (if ShardsCount (Layout cl) = 0 then 1 else ShardsCount (Layout cl))
    \<and> ReplicasCount (Layout cl') =
        (if ReplicasCount (Layout cl) = 0 then 1 else ReplicasCount (Layout cl))
    \<and> int (length (Shards (Layout cl'))) = ShardsCount (Layout cl')
    \<and> (\<forall>sh\<in>set (Shards (Layout cl')).
          int (length (Replicas sh)) = ReplicasCount (Layout cl')
        \<and> shard_ReplicasCount sh = ReplicasCount (Layout cl')
        \<and> InternalReplication sh = stringTrue K)"
proof -
  let ?l = "normalizeClusterStandardLayoutCounts (Layout cl)"
  have sc: "ShardsCount ?l = (if ShardsCount (Layout cl) = 0 then 1 else ShardsCount (Layout cl))"
    and rc: "ReplicasCount ?l =
        (if ReplicasCount (Layout cl) = 0 then 1 else ReplicasCount (Layout cl))"
    by (simp_all add: normalizeClusterStandardLayoutCounts_def Let_def)
  have nonneg: "0 \<le> ShardsCount ?l" "0 \<le> ReplicasCount ?l"
    using assms(2,4) sc rc by simp_all
  have bounded: "ShardsCount ?l \<le> maxLenShards K" "ReplicasCount ?l \<le> maxLenReplicas K"
    using assms(2-5) sc rc by (simp_all split: if_splits)
  from standard_shards_pass [OF nonneg(2) bounded(2), of H chi
      "replicate (nat (ShardsCount ?l)) zero_ChiClusterLayoutShard" Map.empty]
  obtain shs' dn' where
    pass: "shards_pass (standardLayoutShard H K chi (ReplicasCount ?l))
        (replicate (nat (ShardsCount ?l)) zero_ChiClusterLayoutShard) Map.empty = Inr (shs', dn')"
    and len: "length shs' = nat (ShardsCount ?l)"
    and each: "\<forall>sh\<in>set shs'. int (length (Replicas sh)) = ReplicasCount ?l
        \<and> shard_ReplicasCount sh = ReplicasCount ?l \<and> InternalReplication sh = stringTrue K"
    by auto
  let ?cl' = "cl\<lparr>cluster_Deployment :=
                  deploymentMergeFrom (cluster_Deployment cl)
                    (Some (defaults_Deployment (Defaults (Spec chi)))),
                Layout := ?l\<lparr>Shards := shs'\<rparr>\<rparr>"
  have "normalizeSpecConfigurationClustersCluster H K chi cl = Inr (?cl', dn')"
    using assms(1) nonneg(1) bounded(1) pass
    by (simp add: normalizeSpecConfigurationClustersCluster_pass Let_def)
  moreover have "int (length (Shards (Layout ?cl'))) = ShardsCount (Layout ?cl')"
    using len nonneg(1) by simp
  ultimately show ?thesis
    using sc rc each by (intro exI [of _ ?cl'] exI [of _ dn']) simp
qed

theorem standard_layout_expansion_witness:
  "Type (Layout (example_cluster ''Standard'' 0 0 [])) = clusterLayoutTypeStandard example_constants
   \<and> (case normalizeSpecConfigurationClustersCluster plain_hash example_constants
            (example_installation []) (example_cluster ''Standard'' 0 0 []) of
         Inl e \<Rightarrow> False
       | Inr (cl', dn) \<Rightarrow>
           ShardsCount (Layout cl') = 1 \<and> ReplicasCount (Layout cl') = 1 \<and>
           map (\<lambda>sh. (length (Replicas sh), shard_ReplicasCount sh, InternalReplication sh))
             (Shards (Layout cl')) = [(1, 1, ''true'')])"
proof -
  have run: "case normalizeSpecConfigurationClustersCluster plain_hash example_constants
            (example_installation []) (example_cluster ''Standard'' 0 0 []) of
         Inl e \<Rightarrow> False
       | Inr (cl', dn) \<Rightarrow>
           ShardsCount (Layout cl') = 1 \<and> ReplicasCount (Layout cl') = 1 \<and>
           map (\<lambda>sh. (length (Replicas sh), shard_ReplicasCount sh, InternalReplication sh))
             (Shards (Layout cl')) = [(1, 1, ''true'')]"
    by code_simp
  show ?thesis
    using standard_layout_expansion [of "example_cluster ''Standard'' 0 0 []" example_constants
        plain_hash "example_installation []"] run
    by (simp add: example_cluster_def example_constants_def)
qed

text \<open>
  C10. An Advanced shard with \<open>DefinitionType = ReplicasCount\<close> and a count that is not
  negative and not above the largest length that \<open>make\<close> accepts for a slice of replicas
  is normalized without a panic. Its replicas afterwards are exactly
  \<open>ReplicasCount\<close> many, the count is left as it was (a count of \<open>0\<close> stays \<open>0\<close> and gives no
  replica), every replica is the zero replica resolved against the shard's deployment, and
  the result is the same whatever replicas the shard held before.
\<close>

theorem advanced_replicas_count_allocation:
  assumes "DefinitionType sh = shardDefinitionTypeReplicasCount K"
    and "0 \<le> shard_ReplicasCount sh"
    and "shard_ReplicasCount sh \<le> maxLenReplicas K"
  shows "\<exists>sh' dn'.
      advancedLayoutShard H K chi cd sh dn = Inr (sh', dn')
    \<and> advancedLayoutShard H K chi cd (sh\<lparr>Replicas := rs\<rparr>) dn = Inr (sh', dn')
    \<and> int (length (Replicas sh')) = shard_ReplicasCount sh
    \<and> shard_ReplicasCount sh' = shard_ReplicasCount sh
    \<and> (shard_ReplicasCount sh = 0 \<longrightarrow> Replicas sh' = [])
    \<and> (\<forall>r\<in>set (Replicas sh'). \<exists>idx.
          replica_Deployment r =
            (deploymentMergeFrom zero_ChiDeployment (Some (shard_Deployment sh')))
              \<lparr>Fingerprint := deploymentGenerateFingerprint H chi
                   (deploymentMergeFrom zero_ChiDeployment (Some (shard_Deployment sh'))),
               Index := idx\<rparr>)"
proof -
  let ?sd = "deploymentMergeFrom (shard_Deployment sh) (Some cd)"
  let ?n = "nat (shard_ReplicasCount sh)"
  obtain rs1 dn1 where rp:
    "replicas_pass H chi ?sd (replicate ?n zero_ChiClusterLayoutShardReplica) dn = (rs1, dn1)"
    by (cases "replicas_pass H chi ?sd (replicate ?n zero_ChiClusterLayoutShardReplica) dn")
  let ?sh' = "(normalizeClusterAdvancedLayoutShardsInternalReplication K sh)
                \<lparr>shard_Deployment := ?sd, Replicas := rs1\<rparr>"
  have irr: "normalizeClusterAdvancedLayoutShardsInternalReplication K (sh\<lparr>Replicas := rs\<rparr>)
      \<lparr>shard_Deployment := ?sd, Replicas := rs1\<rparr> = ?sh'"
    by (simp add: normalizeClusterAdvancedLayoutShardsInternalReplication_def)
  have r1: "advancedLayoutShard H K chi cd sh dn = Inr (?sh', dn1)"
    using assms rp by (simp add: advancedLayoutShard_pass Let_def)
  have r2: "advancedLayoutShard H K chi cd (sh\<lparr>Replicas := rs\<rparr>) dn = Inr (?sh', dn1)"
    using assms rp irr by (simp add: advancedLayoutShard_pass Let_def)
  have len: "length rs1 = ?n"
    using replicas_pass_length [OF rp] by simp
  have cnt: "shard_ReplicasCount ?sh' = shard_ReplicasCount sh"
    and sd: "shard_Deployment ?sh' = ?sd" and rs: "Replicas ?sh' = rs1"
    by (simp_all add: normalizeClusterAdvancedLayoutShardsInternalReplication_def)
  have fresh: "\<forall>r\<in>set rs1. \<exists>idx. replica_Deployment r =
            (deploymentMergeFrom zero_ChiDeployment (Some ?sd))
              \<lparr>Fingerprint := deploymentGenerateFingerprint H chi
                   (deploymentMergeFrom zero_ChiDeployment (Some ?sd)),
               Index := idx\<rparr>"
    using replicas_pass_fresh [OF rp] by blast
  have l1: "int (length (Replicas ?sh')) = shard_ReplicasCount sh"
    unfolding rs using len assms(2) by simp
  have l2: "shard_ReplicasCount sh = 0 \<longrightarrow> Replicas ?sh' = []"
    unfolding rs using len by auto
  show ?thesis
    apply (intro exI [of _ ?sh'] exI [of _ dn1] conjI)
         apply (rule r1)
        apply (rule r2)
       apply (rule l1)
      apply (rule cnt)
     apply (rule l2)
    unfolding sd rs
    apply (rule fresh)
    done
qed

theorem advanced_replicas_count_allocation_witness:
  "DefinitionType (example_shard ''ReplicasCount'' 0 '''' [example_replica ''p'' ''v'' []]) =
      shardDefinitionTypeReplicasCount example_constants
   \<and> advancedLayoutShard plain_hash example_constants (example_installation []) zero_ChiDeployment
        (example_shard ''ReplicasCount'' 0 '''' [example_replica ''p'' ''v'' []]) Map.empty =
      Inr (example_shard ''ReplicasCount'' 0 ''true'' [], Map.empty)
   \<and> (case advancedLayoutShard plain_hash example_constants (example_installation [])
             zero_ChiDeployment
             (example_shard ''ReplicasCount'' 2 '''' [example_replica ''p'' ''v'' []]) Map.empty of
         Inl e \<Rightarrow> False
       | Inr (sh', dn') \<Rightarrow>
           length (Replicas sh') = 2 \<and> shard_ReplicasCount sh' = 2 \<and>
           map (PodTemplate \<circ> replica_Deployment) (Replicas sh') = ['''', ''''])"
proof -
  have run0: "advancedLayoutShard plain_hash example_constants (example_installation [])
        zero_ChiDeployment
        (example_shard ''ReplicasCount'' 0 '''' [example_replica ''p'' ''v'' []]) Map.empty =
      Inr (example_shard ''ReplicasCount'' 0 ''true'' [], Map.empty)"
    by (simp add: advancedLayoutShard_pass example_shard_def example_constants_def Let_def
        normalizeClusterAdvancedLayoutShardsInternalReplication_def deploymentMergeFrom_def
        zoneCopyFrom_def zero_ChiDeployment_def)
  have run2: "case advancedLayoutShard plain_hash example_constants (example_installation [])
             zero_ChiDeployment
             (example_shard ''ReplicasCount'' 2 '''' [example_replica ''p'' ''v'' []]) Map.empty of
         Inl e \<Rightarrow> False
       | Inr (sh', dn') \<Rightarrow>
           length (Replicas sh') = 2 \<and> shard_ReplicasCount sh' = 2 \<and>
           map (PodTemplate \<circ> replica_Deployment) (Replicas sh') = ['''', '''']"
    by code_simp
  show ?thesis
    using advanced_replicas_count_allocation [of
        "example_shard ''ReplicasCount'' 0 '''' [example_replica ''p'' ''v'' []]" example_constants
        plain_hash "example_installation []" zero_ChiDeployment Map.empty "[]"] run0 run2
    by (simp add: example_shard_def example_constants_def)
qed

section \<open>When the normalization returns\<close>

text \<open>
  The only panic the normalization can run into is that of \<open>make\<close>, on a length that is
  negative or above the largest one it accepts. If every count that a \<open>Standard\<close> cluster
  or an \<open>Advanced\<close> shard defined by its count hands to \<open>make\<close> is within these limits,
  \<open>NormalizeCHI\<close> returns.
\<close>

lemma advanced_shards_pass:
  assumes "list_all (\<lambda>sh. DefinitionType sh = shardDefinitionTypeReplicasCount K \<longrightarrow>
                            0 \<le> shard_ReplicasCount sh \<and>
                            shard_ReplicasCount sh \<le> maxLenReplicas K) shs"
  shows "\<exists>shs' dn'. shards_pass (advancedLayoutShard H K chi cd) shs dn = Inr (shs', dn')"
  using assms
proof (induction shs arbitrary: dn)
  case Nil
  then show ?case by simp
next
  case (Cons s ss)
  have "\<exists>s' dn1. advancedLayoutShard H K chi cd s dn = Inr (s', dn1)"
    using Cons.prems
    by (auto simp: advancedLayoutShard_pass Let_def split: prod.splits)
  then obtain s' dn1 where step: "advancedLayoutShard H K chi cd s dn = Inr (s', dn1)"
    by blast
  from Cons.IH [of dn1] Cons.prems obtain ss' dn' where
    "shards_pass (advancedLayoutShard H K chi cd) ss dn1 = Inr (ss', dn')"
    by auto
  then show ?case
    using step by simp
qed

lemma normalizeSpecConfigurationClustersCluster_returns:
  assumes "counts_allocatable K cl"
  shows "\<exists>cl' dn. normalizeSpecConfigurationClustersCluster H K chi cl = Inr (cl', dn)"
proof -
  let ?l = "normalizeClusterStandardLayoutCounts (Layout cl)"
  let ?cd = "deploymentMergeFrom (cluster_Deployment cl)
               (Some (defaults_Deployment (Defaults (Spec chi))))"
  consider (std) "Type (Layout cl) = clusterLayoutTypeStandard K"
    | (adv) "Type (Layout cl) \<noteq> clusterLayoutTypeStandard K"
        "Type (Layout cl) = clusterLayoutTypeAdvanced K"
    | (other) "Type (Layout cl) \<noteq> clusterLayoutTypeStandard K"
        "Type (Layout cl) \<noteq> clusterLayoutTypeAdvanced K"
    by blast
  then show ?thesis
  proof cases
    case std
    then have nonneg: "0 \<le> ShardsCount ?l" "0 \<le> ReplicasCount ?l"
      and bounded: "ShardsCount ?l \<le> maxLenShards K" "ReplicasCount ?l \<le> maxLenReplicas K"
      using assms
      by (simp_all add: counts_allocatable_def normalizeClusterStandardLayoutCounts_def Let_def)
    from standard_shards_pass [OF nonneg(2) bounded(2), of H chi
        "replicate (nat (ShardsCount ?l)) zero_ChiClusterLayoutShard" Map.empty]
    obtain shs' dn' where
      "shards_pass (standardLayoutShard H K chi (ReplicasCount ?l))
        (replicate (nat (ShardsCount ?l)) zero_ChiClusterLayoutShard) Map.empty = Inr (shs', dn')"
      by blast
    then show ?thesis
      using std nonneg(1) bounded(1)
      by (simp add: normalizeSpecConfigurationClustersCluster_pass Let_def)
  next
    case adv
    then have "list_all (\<lambda>sh. DefinitionType sh = shardDefinitionTypeReplicasCount K \<longrightarrow>
                            0 \<le> shard_ReplicasCount sh \<and>
                            shard_ReplicasCount sh \<le> maxLenReplicas K) (Shards (Layout cl))"
      using assms by (simp add: counts_allocatable_def)
    from advanced_shards_pass [OF this, of H chi ?cd Map.empty] obtain shs' dn' where
      "shards_pass (advancedLayoutShard H K chi ?cd) (Shards (Layout cl)) Map.empty = Inr (shs', dn')"
      by blast
    then show ?thesis
      using adv by (simp add: normalizeSpecConfigurationClustersCluster_pass Let_def)
  next
    case other
    then show ?thesis
      by (simp add: normalizeSpecConfigurationClustersCluster_pass Let_def)
  qed
qed

lemma clusters_pass_returns:
  assumes "\<And>c. c \<in> set cs \<Longrightarrow> \<exists>c' cdn. f c = Inr (c', cdn)"
  shows "\<exists>cs' dn'. clusters_pass f cs dn = Inr (cs', dn')"
  using assms
proof (induction cs arbitrary: dn)
  case Nil
  then show ?case by simp
next
  case (Cons c cs)
  from Cons.prems [of c] obtain c' cdn where step: "f c = Inr (c', cdn)"
    by auto
  from Cons.IH [of "mergeAndReplaceWithBiggerValues dn cdn"] Cons.prems obtain cs' dn' where
    "clusters_pass f cs (mergeAndReplaceWithBiggerValues dn cdn) = Inr (cs', dn')"
    by auto
  then show ?case
    using step by simp
qed

lemma NormalizeCHI_returns:
  assumes "list_all (counts_allocatable K) (installation_clusters chi)"
  shows "\<exists>chi' dn. NormalizeCHI H K chi = Inr (chi', dn)"
proof -
  let ?f = "normalizeSpecConfigurationClustersCluster H K (normalizeDefaults K chi)"
  have "\<exists>c' cdn. ?f c = Inr (c', cdn)" if "c \<in> set (installation_clusters chi)" for c
    using that assms normalizeSpecConfigurationClustersCluster_returns [of K c]
    by (simp add: list_all_iff)
  from clusters_pass_returns [of "installation_clusters chi" ?f Map.empty, OF this]
  obtain cs' dn' where "clusters_pass ?f (installation_clusters chi) Map.empty = Inr (cs', dn')"
    by blast
  then show ?thesis
    by (simp add: NormalizeCHI_pass)
qed

text \<open>
  Conversely, a count outside the limits makes the normalization panic, and \<open>make\<close> is the
  only source of a panic: the index expressions of the loops stay within the slices.
\<close>

lemma shards_pass_panics:
  assumes "s \<in> set shs" and "\<And>dn. f s dn = Inl e"
    and "\<And>s' dn e'. f s' dn = Inl e' \<Longrightarrow> e' = e"
  shows "shards_pass f shs dn = Inl e"
  using assms(1)
proof (induction shs arbitrary: dn)
  case Nil
  then show ?case by simp
next
  case (Cons a shs)
  show ?case
  proof (cases "f a dn")
    case (Inl e')
    then show ?thesis
      using assms(3) [OF Inl] by simp
  next
    case (Inr p)
    then have "a \<noteq> s"
      using assms(2) [of dn] by auto
    then have "shards_pass f shs dn' = Inl e" for dn'
      using Cons by simp
    then show ?thesis
      using Inr by (simp split: prod.splits)
  qed
qed

lemma clusters_pass_panics:
  assumes "c \<in> set cs" and "f c = Inl e"
    and "\<And>c' e'. f c' = Inl e' \<Longrightarrow> e' = e"
  shows "clusters_pass f cs dn = Inl e"
  using assms(1)
proof (induction cs arbitrary: dn)
  case Nil
  then show ?case by simp
next
  case (Cons a cs)
  show ?case
  proof (cases "f a")
    case (Inl e')
    then show ?thesis
      using assms(3) [OF Inl] by simp
  next
    case (Inr p)
    then have "a \<noteq> c"
      using assms(2) by auto
    then have "clusters_pass f cs dn' = Inl e" for dn'
      using Cons by simp
    then show ?thesis
      using Inr by (simp split: prod.splits)
  qed
qed

lemma standardLayoutShard_only_panic:
  "standardLayoutShard H K chi n sh dn = Inl e \<Longrightarrow> e = MakesliceLenOutOfRange"
  by (auto simp: standardLayoutShard_pass split: if_splits prod.splits)

lemma advancedLayoutShard_only_panic:
  "advancedLayoutShard H K chi cd sh dn = Inl e \<Longrightarrow> e = MakesliceLenOutOfRange"
  by (auto simp: advancedLayoutShard_pass Let_def split: if_splits prod.splits)

lemma advancedLayoutShard_panics:
  assumes "DefinitionType sh = shardDefinitionTypeReplicasCount K"
    and "shard_ReplicasCount sh < 0 \<or> maxLenReplicas K < shard_ReplicasCount sh"
  shows "advancedLayoutShard H K chi cd sh dn = Inl MakesliceLenOutOfRange"
  using assms by (auto simp: advancedLayoutShard_pass Let_def)

lemma normalizeSpecConfigurationClustersCluster_panics:
  assumes "\<not> counts_allocatable K cl"
  shows "normalizeSpecConfigurationClustersCluster H K chi cl = Inl MakesliceLenOutOfRange"
proof -
  let ?l = "normalizeClusterStandardLayoutCounts (Layout cl)"
  let ?cd = "deploymentMergeFrom (cluster_Deployment cl)
               (Some (defaults_Deployment (Defaults (Spec chi))))"
  consider (std) "Type (Layout cl) = clusterLayoutTypeStandard K"
    | (adv) "Type (Layout cl) \<noteq> clusterLayoutTypeStandard K"
        "Type (Layout cl) = clusterLayoutTypeAdvanced K"
    | (other) "Type (Layout cl) \<noteq> clusterLayoutTypeStandard K"
        "Type (Layout cl) \<noteq> clusterLayoutTypeAdvanced K"
    by blast
  then show ?thesis
  proof cases
    case std
    have sc: "ShardsCount ?l = (if ShardsCount (Layout cl) = 0 then 1 else ShardsCount (Layout cl))"
      and rc: "ReplicasCount ?l =
          (if ReplicasCount (Layout cl) = 0 then 1 else ReplicasCount (Layout cl))"
      by (simp_all add: normalizeClusterStandardLayoutCounts_def Let_def)
    show ?thesis
    proof (cases "ShardsCount ?l < 0 \<or> maxLenShards K < ShardsCount ?l")
      case True
      then show ?thesis
        using std by (auto simp: normalizeSpecConfigurationClustersCluster_pass Let_def)
    next
      case False
      then have pos: "0 < ShardsCount ?l"
        using sc by (simp split: if_splits)
      have out: "ReplicasCount ?l < 0 \<or> maxLenReplicas K < ReplicasCount ?l"
        using assms std False sc rc
        by (auto simp: counts_allocatable_def split: if_splits)
      obtain m where m: "nat (ShardsCount ?l) = Suc m"
        using pos by (cases "nat (ShardsCount ?l)") simp_all
      have "shards_pass (standardLayoutShard H K chi (ReplicasCount ?l))
          (replicate (nat (ShardsCount ?l)) zero_ChiClusterLayoutShard) Map.empty =
          Inl MakesliceLenOutOfRange"
        unfolding m using out by (auto simp: standardLayoutShard_pass)
      then show ?thesis
        using std False
        by (simp add: normalizeSpecConfigurationClustersCluster_pass Let_def)
    qed
  next
    case adv
    then obtain sh where sh: "sh \<in> set (Shards (Layout cl))"
      and dt: "DefinitionType sh = shardDefinitionTypeReplicasCount K"
      and out: "shard_ReplicasCount sh < 0 \<or> maxLenReplicas K < shard_ReplicasCount sh"
      using assms by (auto simp: counts_allocatable_def list_all_iff)
    have "shards_pass (advancedLayoutShard H K chi ?cd) (Shards (Layout cl)) Map.empty =
        Inl MakesliceLenOutOfRange"
      by (rule shards_pass_panics [OF sh])
        (use dt out in \<open>auto simp: advancedLayoutShard_panics dest: advancedLayoutShard_only_panic\<close>)
    then show ?thesis
      using adv by (simp add: normalizeSpecConfigurationClustersCluster_pass Let_def)
  next
    case other
    then show ?thesis
      using assms by (simp add: counts_allocatable_def)
  qed
qed

lemma normalizeSpecConfigurationClustersCluster_only_panic:
  assumes "normalizeSpecConfigurationClustersCluster H K chi cl = Inl e"
  shows "e = MakesliceLenOutOfRange"
proof (cases "counts_allocatable K cl")
  case True
  then show ?thesis
    using normalizeSpecConfigurationClustersCluster_returns [OF True, of H chi] assms by auto
next
  case False
  then show ?thesis
    using normalizeSpecConfigurationClustersCluster_panics [OF False, of H chi] assms by simp
qed

lemma NormalizeCHI_panics:
  assumes "\<not> list_all (counts_allocatable K) (installation_clusters chi)"
  shows "NormalizeCHI H K chi = Inl MakesliceLenOutOfRange"
proof -
  let ?f = "normalizeSpecConfigurationClustersCluster H K (normalizeDefaults K chi)"
  from assms obtain c where c: "c \<in> set (installation_clusters chi)"
    and out: "\<not> counts_allocatable K c"
    by (auto simp: list_all_iff)
  have "clusters_pass ?f (installation_clusters chi) Map.empty = Inl MakesliceLenOutOfRange"
    by (rule clusters_pass_panics [OF c])
      (use out in \<open>auto simp: normalizeSpecConfigurationClustersCluster_panics
          dest: normalizeSpecConfigurationClustersCluster_only_panic\<close>)
  then show ?thesis
    by (simp add: NormalizeCHI_pass)
qed

text \<open>
  With the limits of the examples, a count of \<open>2 ^ 62\<close> is refused by \<open>make\<close>, for the shards
  of a \<open>Standard\<close> cluster and for the replicas of an \<open>Advanced\<close> shard, under every hash.
\<close>

lemma huge_shards_count_panics:
  "case NormalizeCHI H example_constants
          (example_installation [example_cluster ''Standard'' (2 ^ 62) 1 []]) of
     Inl e \<Rightarrow> e = MakesliceLenOutOfRange
   | Inr r \<Rightarrow> False"
  by code_simp

lemma huge_replicas_count_panics:
  "case advancedLayoutShard H example_constants (example_installation []) zero_ChiDeployment
          (example_shard ''ReplicasCount'' (2 ^ 62) '''' []) Map.empty of
     Inl e \<Rightarrow> e = MakesliceLenOutOfRange
   | Inr r \<Rightarrow> False"
  by code_simp

section \<open>Internal replication of an Advanced shard\<close>

lemma advancedLayoutShard_InternalReplication:
  "advancedLayoutShard H K chi cd sh dn = Inr (sh', dn') \<Longrightarrow>
   InternalReplication sh' =
     InternalReplication (normalizeClusterAdvancedLayoutShardsInternalReplication K sh)"
  by (auto simp: advancedLayoutShard_pass Let_def split: if_splits prod.splits)

text \<open>
  C2, as the code has it. After \<open>normalizeClusterAdvancedLayoutShardsInternalReplication\<close>,
  and still when the normalization of the Advanced shard has returned, \<open>InternalReplication\<close>
  is the canonical false value exactly when the stored value was the \<open>disabled\<close> sentinel
  \<open>shardInternalReplicationDisabled\<close>, and the canonical true value for every other stored
  value: unset, unknown, and the two canonical values themselves.
\<close>

theorem internal_replication_normalized:
  "InternalReplication (normalizeClusterAdvancedLayoutShardsInternalReplication K shard) =
     (if InternalReplication shard = shardInternalReplicationDisabled K
      then stringFalse K else stringTrue K)
   \<and> (advancedLayoutShard H K chi cd shard dn = Inr (shard', dn') \<longrightarrow>
        InternalReplication shard' =
          (if InternalReplication shard = shardInternalReplicationDisabled K
           then stringFalse K else stringTrue K))"
  using advancedLayoutShard_InternalReplication [of H K chi cd shard dn shard' dn']
  by (simp add: normalizeClusterAdvancedLayoutShardsInternalReplication_def)

theorem internal_replication_normalized_witness:
  "advancedLayoutShard plain_hash example_constants (example_installation [])
      zero_ChiDeployment (example_shard ''Replicas'' 0 ''Disabled'' []) Map.empty
     = Inr (example_shard ''Replicas'' 0 ''false'' [], Map.empty)
   \<and> InternalReplication (example_shard ''Replicas'' 0 ''false'' []) = ''false''"
  using internal_replication_normalized [of example_constants
      "example_shard ''Replicas'' 0 ''Disabled'' []" plain_hash "example_installation []"
      zero_ChiDeployment Map.empty "example_shard ''Replicas'' 0 ''false'' []" Map.empty]
  by (simp add: advancedLayoutShard_pass example_shard_def example_constants_def Let_def
      normalizeClusterAdvancedLayoutShardsInternalReplication_def deploymentMergeFrom_def
      zoneCopyFrom_def zero_ChiDeployment_def)

text \<open>
  C2 as stated fails: the unset value (the empty string) is neither canonical value, and it
  is forced to the canonical true value, not to the canonical false one.
\<close>

theorem internal_replication_unset_counterexample:
  "InternalReplication (normalizeClusterAdvancedLayoutShardsInternalReplication example_constants
      (example_shard ''Replicas'' 0 '''' [])) = stringTrue example_constants
   \<and> '''' \<noteq> stringTrue example_constants \<and> '''' \<noteq> stringFalse example_constants
   \<and> stringTrue example_constants \<noteq> stringFalse example_constants"
  by (simp add: normalizeClusterAdvancedLayoutShardsInternalReplication_def example_shard_def
      example_constants_def)

section \<open>Duplicates: one fingerprint, indices per cluster\<close>

lemma count_list_take_less:
  assumes "i < j" and "j \<le> length xs"
  shows "count_list (take i xs) (xs ! i) < count_list (take j xs) (xs ! i)"
proof -
  define rest where "rest = drop (Suc i) (take j xs)"
  have i: "i < length xs" using assms by simp
  have "take j xs = take (Suc i) (take j xs) @ rest"
    unfolding rest_def by (simp only: append_take_drop_id)
  also have "take (Suc i) (take j xs) = take (Suc i) xs"
    using assms by (simp add: min_def)
  also have "take (Suc i) xs = take i xs @ [xs ! i]"
    using i by (rule take_Suc_conv_app_nth)
  finally have e: "take j xs = (take i xs @ [xs ! i]) @ rest" .
  show ?thesis
    by (simp add: e)
qed

text \<open>
  C1, as the code has it. After \<open>NormalizeCHI\<close>, take two replicas of clusters of the
  installation whose layout type is \<open>Standard\<close> or \<open>Advanced\<close>, in the same cluster or not. If
  their resolved deployments have the same \<open>PodTemplate\<close>, \<open>VolumeClaimTemplate\<close> and
  \<open>Scenario\<close> and the same zone labels as a set, they carry the same \<open>Fingerprint\<close>. The
  \<open>Index\<close> is counted per cluster: within a cluster a replica's \<open>Index\<close> is the number of
  replicas visited before it in that cluster that carry its fingerprint, so the replicas of
  one cluster that share a fingerprint are numbered \<open>0, 1, 2, ...\<close> in visitation order and
  no two of them have the same \<open>Index\<close>.
\<close>

theorem duplicates_share_fingerprint_indexed_per_cluster:
  assumes "NormalizeCHI H K chi = Inr (chi', dn)"
    and "c1 \<in> set (installation_clusters chi')" and "recognized_layout K c1"
    and "c2 \<in> set (installation_clusters chi')" and "recognized_layout K c2"
    and "d1 \<in> set (cluster_deployments c1)" and "d2 \<in> set (cluster_deployments c2)"
    and "PodTemplate d1 = PodTemplate d2"
    and "VolumeClaimTemplate d1 = VolumeClaimTemplate d2"
    and "Scenario d1 = Scenario d2"
    and "distinct (map fst (MatchLabels (Zone d1)))"
    and "distinct (map fst (MatchLabels (Zone d2)))"
    and "set (MatchLabels (Zone d1)) = set (MatchLabels (Zone d2))"
  shows "Fingerprint d1 = Fingerprint d2
    \<and> (\<forall>j<length (cluster_deployments c1).
          Index (cluster_deployments c1 ! j) =
            int (count_list (take j (map Fingerprint (cluster_deployments c1)))
                   (Fingerprint (cluster_deployments c1 ! j))))
    \<and> (\<forall>i j. i < j \<and> j < length (cluster_deployments c1) \<and>
          Fingerprint (cluster_deployments c1 ! i) = Fingerprint (cluster_deployments c1 ! j) \<longrightarrow>
          Index (cluster_deployments c1 ! i) < Index (cluster_deployments c1 ! j))"
proof -
  let ?chi = "normalizeDefaults K chi"
  let ?ds = "cluster_deployments c1"
  let ?fps = "map Fingerprint ?ds"
  from installation_cluster_counted [OF assms(1,2,3)] obtain cdn1 where
    k1: "counted H ?chi [] ?ds cdn1" ..
  from installation_cluster_counted [OF assms(1,4,5)] obtain cdn2 where
    k2: "counted H ?chi [] (cluster_deployments c2) cdn2" ..
  have "fingerprinted H ?chi d1" "fingerprinted H ?chi d2"
    using k1 k2 assms(6,7) by (auto simp: counted_def list_all_iff)
  then have fp: "Fingerprint d1 = Fingerprint d2"
    using deploymentGenerateString_cong [OF assms(8-13)]
    by (simp add: fingerprinted_def deploymentGenerateFingerprint_def)
  have idx: "Index (?ds ! j) = int (count_list (take j ?fps) (Fingerprint (?ds ! j)))"
    if "j < length ?ds" for j
    using indexed_from_nth [of "[]" ?ds j] k1 that by (simp add: counted_def)
  have less: "Index (?ds ! i) < Index (?ds ! j)"
    if "i < j" "j < length ?ds" "Fingerprint (?ds ! i) = Fingerprint (?ds ! j)" for i j
  proof -
    have "count_list (take i ?fps) (?fps ! i) < count_list (take j ?fps) (?fps ! i)"
      by (rule count_list_take_less) (use that in simp_all)
    then show ?thesis
      using that idx [of i] idx [of j] by simp
  qed
  show ?thesis
  proof (intro conjI allI impI)
    show "Fingerprint d1 = Fingerprint d2" by (rule fp)
  next
    fix j assume "j < length ?ds"
    then show "Index (?ds ! j) = int (count_list (take j ?fps) (Fingerprint (?ds ! j)))"
      by (rule idx)
  next
    fix i j
    assume "i < j \<and> j < length ?ds \<and> Fingerprint (?ds ! i) = Fingerprint (?ds ! j)"
    then show "Index (?ds ! i) < Index (?ds ! j)"
      using less [of i j] by simp
  qed
qed

theorem duplicates_share_fingerprint_indexed_per_cluster_witness:
  "case NormalizeCHI plain_hash example_constants example_duplicates of
     Inl e \<Rightarrow> False
   | Inr (chi', dn) \<Rightarrow>
       map (\<lambda>c. (Type (Layout c),
                  map (\<lambda>d. (PodTemplate d, VolumeClaimTemplate d, Scenario d, MatchLabels (Zone d),
                             Fingerprint d, Index d)) (cluster_deployments c)))
         (installation_clusters chi') =
       [(''Advanced'',
         [(''p'', ''v'', ''s'', [(''zone'', ''z1''), (''kind'', ''ssd'')],
           ''nschip::v::s::::kind=ssd::zone=z1'', 0),
          (''p'', ''v'', ''s'', [(''kind'', ''ssd''), (''zone'', ''z1'')],
           ''nschip::v::s::::kind=ssd::zone=z1'', 1)]),
        (''Advanced'',
         [(''p'', ''v'', ''s'', [(''kind'', ''ssd''), (''zone'', ''z1'')],
           ''nschip::v::s::::kind=ssd::zone=z1'', 0)])]"
proof -
  let ?row = "\<lambda>d. (PodTemplate d, VolumeClaimTemplate d, Scenario d, MatchLabels (Zone d),
                             Fingerprint d, Index d)"
  let ?tab = "\<lambda>c. (Type (Layout c), map ?row (cluster_deployments c))"
  let ?F = "''nschip::v::s::::kind=ssd::zone=z1''"
  let ?z1 = "[(''zone'', ''z1''), (''kind'', ''ssd'')]"
  let ?z2 = "[(''kind'', ''ssd''), (''zone'', ''z1'')]"
  have run: "case NormalizeCHI plain_hash example_constants example_duplicates of
     Inl e \<Rightarrow> False
   | Inr (chi', dn) \<Rightarrow>
       map ?tab (installation_clusters chi') =
       [(''Advanced'', [(''p'', ''v'', ''s'', ?z1, ?F, 0), (''p'', ''v'', ''s'', ?z2, ?F, 1)]),
        (''Advanced'', [(''p'', ''v'', ''s'', ?z2, ?F, 0)])]"
    by code_simp
  then obtain chi' dn where
    r: "NormalizeCHI plain_hash example_constants example_duplicates = Inr (chi', dn)"
    and tab: "map ?tab (installation_clusters chi') =
       [(''Advanced'', [(''p'', ''v'', ''s'', ?z1, ?F, 0), (''p'', ''v'', ''s'', ?z2, ?F, 1)]),
        (''Advanced'', [(''p'', ''v'', ''s'', ?z2, ?F, 0)])]"
    by (auto split: sum.splits)
  from tab obtain c1 c2 where cs: "installation_clusters chi' = [c1, c2]"
    and t1: "?tab c1 =
        (''Advanced'', [(''p'', ''v'', ''s'', ?z1, ?F, 0), (''p'', ''v'', ''s'', ?z2, ?F, 1)])"
    and t2: "?tab c2 = (''Advanced'', [(''p'', ''v'', ''s'', ?z2, ?F, 0)])"
    by (auto simp: map_eq_Cons_conv)
  from t1 obtain a b where ds1: "cluster_deployments c1 = [a, b]"
    and a: "?row a = (''p'', ''v'', ''s'', ?z1, ?F, 0)"
    and b: "?row b = (''p'', ''v'', ''s'', ?z2, ?F, 1)"
    by (auto simp: map_eq_Cons_conv)
  from t2 obtain d where ds2: "cluster_deployments c2 = [d]"
    and d: "?row d = (''p'', ''v'', ''s'', ?z2, ?F, 0)"
    by (auto simp: map_eq_Cons_conv)
  have rec: "recognized_layout example_constants c1" "recognized_layout example_constants c2"
    using t1 t2 by (simp_all add: recognized_layout_def example_constants_def)
  have "Fingerprint a = Fingerprint d
    \<and> (\<forall>j<length (cluster_deployments c1).
          Index (cluster_deployments c1 ! j) =
            int (count_list (take j (map Fingerprint (cluster_deployments c1)))
                   (Fingerprint (cluster_deployments c1 ! j))))
    \<and> (\<forall>i j. i < j \<and> j < length (cluster_deployments c1) \<and>
          Fingerprint (cluster_deployments c1 ! i) = Fingerprint (cluster_deployments c1 ! j) \<longrightarrow>
          Index (cluster_deployments c1 ! i) < Index (cluster_deployments c1 ! j))"
    by (rule duplicates_share_fingerprint_indexed_per_cluster [OF r _ rec(1) _ rec(2)])
      (use cs ds1 ds2 a d in auto)
  then show ?thesis
    using run by simp
qed

text \<open>
  C1 as stated fails. Two clusters of one installation, each of one shard and one replica,
  all with the same (empty) resolved deployment: the two replicas receive the same
  fingerprint, and both receive \<open>Index\<close> \<open>0\<close>, since each cluster counts from zero.
\<close>

theorem duplicates_across_clusters_counterexample:
  "case NormalizeCHI plain_hash example_constants
          (example_installation [example_cluster ''Standard'' 0 0 [], example_cluster ''Standard'' 0 0 []]) of
     Inl e \<Rightarrow> False
   | Inr (chi', dn) \<Rightarrow>
       map (\<lambda>c. map (\<lambda>d. (PodTemplate d, VolumeClaimTemplate d, Scenario d, MatchLabels (Zone d),
                            Fingerprint d, Index d)) (cluster_deployments c))
         (installation_clusters chi') =
       [[('''', '''', '''', [], ''nschi::::::'', 0)], [('''', '''', '''', [], ''nschi::::::'', 0)]]"
  by code_simp

section \<open>The usage map of the installation\<close>

lemma usage_of_count_map: "usage_of fps = count_map (\<lambda>F. int (count_list fps F))"
  by (rule ext) (simp add: usage_of_def count_map_def count_list_0_iff)

lemma count_map_zero: "Map.empty = count_map (\<lambda>F. 0)"
  by (simp add: count_map_def)

lemma merge_count_map:
  assumes "\<And>F. 0 \<le> g F" and "\<And>F. 0 \<le> h F"
  shows "mergeAndReplaceWithBiggerValues (count_map g) (count_map h) =
         count_map (\<lambda>F. max (g F) (h F))"
proof (rule ext)
  fix F
  show "mergeAndReplaceWithBiggerValues (count_map g) (count_map h) F =
         count_map (\<lambda>F. max (g F) (h F)) F"
    using assms(1) [of F] assms(2) [of F]
    by (auto simp: mergeAndReplaceWithBiggerValues_def count_map_def max_def)
qed

lemma normalizeSpecConfigurationClustersCluster_unrecognized:
  assumes "normalizeSpecConfigurationClustersCluster H K chi cl = Inr (cl', dn)"
    and "\<not> recognized_layout K cl"
  shows "dn = Map.empty"
  using assms
  by (auto simp: normalizeSpecConfigurationClustersCluster_pass Let_def recognized_layout_def)

lemma normalizeSpecConfigurationClustersCluster_count_map:
  assumes "normalizeSpecConfigurationClustersCluster H K chi cl = Inr (cl', dn)"
  shows "dn = count_map (cluster_count K cl')"
proof (cases "recognized_layout K cl")
  case True
  then have r: "recognized_layout K cl'"
    using normalizeSpecConfigurationClustersCluster_LayoutType [OF assms]
    by (simp add: recognized_layout_def)
  have "counted H chi [] (cluster_deployments cl') dn"
    by (rule normalizeSpecConfigurationClustersCluster_counted [OF assms])
      (use True in \<open>simp add: recognized_layout_def\<close>)
  then have "dn = usage_of (map Fingerprint (cluster_deployments cl'))"
    by (simp add: counted_def)
  moreover have "cluster_count K cl' =
      (\<lambda>F. int (count_list (map Fingerprint (cluster_deployments cl')) F))"
    using r by (intro ext) (simp add: cluster_count_def)
  ultimately show ?thesis
    by (simp add: usage_of_count_map)
next
  case False
  then have r: "\<not> recognized_layout K cl'"
    using normalizeSpecConfigurationClustersCluster_LayoutType [OF assms]
    by (simp add: recognized_layout_def)
  show ?thesis
    using normalizeSpecConfigurationClustersCluster_unrecognized [OF assms False] r
    by (simp add: count_map_def cluster_count_def)
qed

lemma cluster_count_nonneg: "0 \<le> cluster_count K cl F"
  by (simp add: cluster_count_def)

lemma Max_insert_max:
  fixes a b :: int
  shows "finite S \<Longrightarrow> Max (insert (max a b) S) = max a (Max (insert b S))"
  by (cases "S = {}") (simp_all add: max.assoc)

lemma clusters_pass_max:
  assumes "clusters_pass (normalizeSpecConfigurationClustersCluster H K chi) cs (count_map g)
             = Inr (cs', dn')"
    and "\<And>F. 0 \<le> g F"
  shows "dn' = count_map (\<lambda>F. Max (set (g F # map (\<lambda>c. cluster_count K c F) cs')))"
  using assms
proof (induction cs arbitrary: g cs' dn')
  case Nil
  then show ?case by simp
next
  case (Cons c cs)
  let ?f = "normalizeSpecConfigurationClustersCluster H K chi"
  from Cons.prems(1) obtain c1 cdn cs1 where
    step: "?f c = Inr (c1, cdn)" and
    rest: "clusters_pass ?f cs (mergeAndReplaceWithBiggerValues (count_map g) cdn) = Inr (cs1, dn')" and
    res: "cs' = c1 # cs1"
    by (auto split: sum.splits prod.splits)
  let ?g = "\<lambda>F. max (g F) (cluster_count K c1 F)"
  have cdn: "cdn = count_map (cluster_count K c1)"
    by (rule normalizeSpecConfigurationClustersCluster_count_map [OF step])
  have m: "mergeAndReplaceWithBiggerValues (count_map g) cdn = count_map ?g"
    unfolding cdn by (rule merge_count_map) (simp_all add: Cons.prems(2) cluster_count_nonneg)
  have "dn' = count_map (\<lambda>F. Max (set (?g F # map (\<lambda>c. cluster_count K c F) cs1)))"
    by (rule Cons.IH) (use rest m Cons.prems(2) in \<open>simp_all add: max.coboundedI1\<close>)
  moreover have "Max (set (?g F # map (\<lambda>c. cluster_count K c F) cs1)) =
      Max (set (g F # map (\<lambda>c. cluster_count K c F) (c1 # cs1)))" for F
    using Max_insert_max [of "(\<lambda>c. cluster_count K c F) ` set cs1" "g F" "cluster_count K c1 F"]
    by simp
  ultimately show ?case
    using res by simp
qed

text \<open>
  C4. When \<open>NormalizeCHI\<close> returns, its usage map gives every fingerprint the maximum, over
  the clusters of the installation, of the number of replicas of the cluster that carry
  the fingerprint (\<open>cluster_count\<close>, which is \<open>0\<close> for a cluster whose layout type is neither
  \<open>Standard\<close> nor \<open>Advanced\<close>: the code leaves such a cluster uncounted); a fingerprint that no
  cluster uses has no entry.
\<close>

theorem usage_is_maximum_over_clusters:
  assumes "NormalizeCHI H K chi = Inr (chi', dn)"
  shows "dn F =
     (let m = Max (set (0 # map (\<lambda>c. cluster_count K c F) (installation_clusters chi')))
      in if m = 0 then None else Some m)"
proof -
  have "dn = count_map (\<lambda>F. Max (set (0 # map (\<lambda>c. cluster_count K c F) (installation_clusters chi'))))"
    by (rule clusters_pass_max [of H K "normalizeDefaults K chi" "installation_clusters chi"])
      (use NormalizeCHI_results(1) [OF assms] in \<open>simp_all add: count_map_zero [symmetric]\<close>)
  then show ?thesis
    by (simp add: count_map_def Let_def)
qed

theorem usage_is_maximum_over_clusters_witness:
  "case NormalizeCHI plain_hash example_constants
          (example_installation [example_cluster ''Standard'' 3 1 [], example_cluster ''Standard'' 1 1 []]) of
     Inl e \<Rightarrow> False
   | Inr (chi', dn) \<Rightarrow>
       map (\<lambda>c. cluster_count example_constants c ''nschi::::::'') (installation_clusters chi') = [3, 1]
       \<and> dn ''nschi::::::'' = Some 3"
proof -
  let ?chi = "example_installation
      [example_cluster ''Standard'' 3 1 [], example_cluster ''Standard'' 1 1 []]"
  have run: "case NormalizeCHI plain_hash example_constants ?chi of
     Inl e \<Rightarrow> False
   | Inr (chi', dn) \<Rightarrow>
       map (\<lambda>c. cluster_count example_constants c ''nschi::::::'') (installation_clusters chi') = [3, 1]"
    by code_simp
  then obtain chi' dn where r: "NormalizeCHI plain_hash example_constants ?chi = Inr (chi', dn)"
    and counts: "map (\<lambda>c. cluster_count example_constants c ''nschi::::::'')
        (installation_clusters chi') = [3, 1]"
    by (auto split: sum.splits)
  show ?thesis
    using usage_is_maximum_over_clusters [OF r, of "''nschi::::::''"] counts
    by (simp add: r)
qed

section \<open>A second run\<close>

lemma normalizeReplica_twice:
  assumes "normalizeReplica H chi sd r dn = (r', dn')"
  shows "normalizeReplica H chi sd r' dn = (r', dn')"
  using assms
  by (auto simp: normalizeReplica_def Let_def deploymentMergeFrom_derived
      deploymentMergeFrom_twice)

lemma replicas_pass_twice:
  assumes "replicas_pass H chi sd rs dn = (rs', dn')"
  shows "replicas_pass H chi sd rs' dn = (rs', dn')"
  using assms
proof (induction rs arbitrary: dn rs' dn')
  case Nil
  then show ?case by simp
next
  case (Cons r rs)
  obtain r1 dn1 where step: "normalizeReplica H chi sd r dn = (r1, dn1)"
    by (cases "normalizeReplica H chi sd r dn")
  obtain rs1 dn2 where rest: "replicas_pass H chi sd rs dn1 = (rs1, dn2)"
    by (cases "replicas_pass H chi sd rs dn1")
  have res: "rs' = r1 # rs1" "dn' = dn2"
    using Cons.prems step rest by simp_all
  show ?case
    using normalizeReplica_twice [OF step] Cons.IH [OF rest] res by simp
qed

lemma standardLayoutShard_twice:
  assumes "standardLayoutShard H K chi n sh dn = Inr (sh', dn')"
  shows "standardLayoutShard H K chi n sh' dn = Inr (sh', dn')"
  using assms
  by (auto simp: standardLayoutShard_pass split: if_splits prod.splits)

lemma advancedLayoutShard_twice:
  assumes "advancedLayoutShard H K chi cd sh dn = Inr (sh', dn')"
  shows "\<exists>sh''. advancedLayoutShard H K chi cd sh' dn = Inr (sh'', dn') \<and> same_replicas sh' sh''"
proof -
  let ?sd = "deploymentMergeFrom (shard_Deployment sh) (Some cd)"
  have sd: "shard_Deployment sh' = ?sd" and dt: "DefinitionType sh' = DefinitionType sh"
    using assms
    by (auto simp: advancedLayoutShard_pass Let_def
        normalizeClusterAdvancedLayoutShardsInternalReplication_def
        split: if_splits prod.splits)
  show ?thesis
  proof (cases "DefinitionType sh = shardDefinitionTypeReplicasCount K")
    case True
    from assms True have nonneg: "0 \<le> shard_ReplicasCount sh"
      and bounded: "shard_ReplicasCount sh \<le> maxLenReplicas K"
      and cnt: "shard_ReplicasCount sh' = shard_ReplicasCount sh"
      and rp: "replicas_pass H chi ?sd
          (replicate (nat (shard_ReplicasCount sh)) zero_ChiClusterLayoutShardReplica) dn
        = (Replicas sh', dn')"
      by (auto simp: advancedLayoutShard_pass Let_def
          normalizeClusterAdvancedLayoutShardsInternalReplication_def
          split: if_splits prod.splits)
    show ?thesis
      using True nonneg bounded rp
      by (simp add: advancedLayoutShard_pass Let_def sd dt cnt deploymentMergeFrom_twice
          same_replicas_def)
  next
    case False
    from assms False have rp: "replicas_pass H chi ?sd (Replicas sh) dn = (Replicas sh', dn')"
      by (auto simp: advancedLayoutShard_pass Let_def
          normalizeClusterAdvancedLayoutShardsInternalReplication_def
          split: if_splits prod.splits)
    show ?thesis
      using False replicas_pass_twice [OF rp]
      by (simp add: advancedLayoutShard_pass Let_def sd dt deploymentMergeFrom_twice
          same_replicas_def)
  qed
qed

lemma shards_pass_twice:
  assumes body: "\<And>sh dn sh' dn'. f sh dn = Inr (sh', dn') \<Longrightarrow>
      \<exists>sh''. f sh' dn = Inr (sh'', dn') \<and> same_replicas sh' sh''"
    and "shards_pass f shs dn = Inr (shs', dn')"
  shows "\<exists>shs''. shards_pass f shs' dn = Inr (shs'', dn') \<and> list_all2 same_replicas shs' shs''"
  using assms(2)
proof (induction shs arbitrary: dn shs' dn')
  case Nil
  then show ?case by simp
next
  case (Cons s ss)
  from Cons.prems obtain s1 dn1 ss1 where
    step: "f s dn = Inr (s1, dn1)" and
    rest: "shards_pass f ss dn1 = Inr (ss1, dn')" and
    res: "shs' = s1 # ss1"
    by (auto split: sum.splits prod.splits)
  from body [OF step] obtain s2 where
    step2: "f s1 dn = Inr (s2, dn1)" and same: "same_replicas s1 s2"
    by blast
  from Cons.IH [OF rest] obtain ss2 where
    rest2: "shards_pass f ss1 dn1 = Inr (ss2, dn')" and sames: "list_all2 same_replicas ss1 ss2"
    by blast
  have "shards_pass f (s1 # ss1) dn = Inr (s2 # ss2, dn')"
    using step2 rest2 by simp
  then show ?case
    using res same sames by auto
qed

lemma list_all2_same_replicas:
  "list_all2 same_replicas shs shs' \<Longrightarrow> map Replicas shs' = map Replicas shs"
  by (induction shs shs' rule: list_all2_induct) (simp_all add: same_replicas_def)

lemma normalizeClusterStandardLayoutCounts_twice:
  "normalizeClusterStandardLayoutCounts (normalizeClusterStandardLayoutCounts l\<lparr>Shards := ss\<rparr>) =
   normalizeClusterStandardLayoutCounts l\<lparr>Shards := ss\<rparr>"
  by (simp add: normalizeClusterStandardLayoutCounts_def Let_def)

lemma normalizeSpecConfigurationClustersCluster_twice:
  assumes "normalizeSpecConfigurationClustersCluster H K chi cl = Inr (cl', dn)"
  shows "\<exists>cl''. normalizeSpecConfigurationClustersCluster H K chi cl' = Inr (cl'', dn)
       \<and> replica_table cl'' = replica_table cl'"
proof -
  let ?cd = "deploymentMergeFrom (cluster_Deployment cl)
                     (Some (defaults_Deployment (Defaults (Spec chi))))"
  have cd: "cluster_Deployment cl' = ?cd" and lt: "Type (Layout cl') = Type (Layout cl)"
    using assms
    by (auto simp: normalizeSpecConfigurationClustersCluster_pass Let_def
        normalizeClusterStandardLayoutCounts_def split: if_splits sum.splits prod.splits)
  have cd2: "deploymentMergeFrom (cluster_Deployment cl')
                     (Some (defaults_Deployment (Defaults (Spec chi)))) = ?cd"
    unfolding cd by (rule deploymentMergeFrom_twice)
  consider (std) "Type (Layout cl) = clusterLayoutTypeStandard K"
    | (adv) "Type (Layout cl) \<noteq> clusterLayoutTypeStandard K"
        "Type (Layout cl) = clusterLayoutTypeAdvanced K"
    | (other) "Type (Layout cl) \<noteq> clusterLayoutTypeStandard K"
        "Type (Layout cl) \<noteq> clusterLayoutTypeAdvanced K"
    by blast
  then show ?thesis
  proof cases
    case std
    let ?l = "normalizeClusterStandardLayoutCounts (Layout cl)"
    from assms std obtain ss where
      nonneg: "0 \<le> ShardsCount ?l"
      and bounded: "ShardsCount ?l \<le> maxLenShards K"
      and pass: "shards_pass (standardLayoutShard H K chi (ReplicasCount ?l))
          (replicate (nat (ShardsCount ?l)) zero_ChiClusterLayoutShard) Map.empty = Inr (ss, dn)"
      and res: "cl' = cl\<lparr>cluster_Deployment := ?cd, Layout := ?l\<lparr>Shards := ss\<rparr>\<rparr>"
      by (auto simp: normalizeSpecConfigurationClustersCluster_pass Let_def
          split: if_splits sum.splits prod.splits)
    have l': "normalizeClusterStandardLayoutCounts (Layout cl') = ?l\<lparr>Shards := ss\<rparr>"
      unfolding res by (simp add: normalizeClusterStandardLayoutCounts_twice)
    have "normalizeSpecConfigurationClustersCluster H K chi cl' = Inr (cl', dn)"
      using std nonneg bounded pass
      by (simp add: normalizeSpecConfigurationClustersCluster_pass Let_def lt cd2 l')
        (simp add: res)
    then show ?thesis by blast
  next
    case adv
    from assms adv obtain ss where
      pass: "shards_pass (advancedLayoutShard H K chi ?cd) (Shards (Layout cl)) Map.empty
          = Inr (ss, dn)"
      and res: "Shards (Layout cl') = ss"
      by (auto simp: normalizeSpecConfigurationClustersCluster_pass Let_def
          split: if_splits sum.splits prod.splits)
    from shards_pass_twice [of "advancedLayoutShard H K chi ?cd", OF _ pass]
    obtain ss2 where
      pass2: "shards_pass (advancedLayoutShard H K chi ?cd) ss Map.empty = Inr (ss2, dn)"
      and same: "list_all2 same_replicas ss ss2"
      using advancedLayoutShard_twice by blast
    let ?cl'' = "cl'\<lparr>cluster_Deployment := ?cd, Layout := (Layout cl')\<lparr>Shards := ss2\<rparr>\<rparr>"
    have "normalizeSpecConfigurationClustersCluster H K chi cl' = Inr (?cl'', dn)"
      using adv pass2
      by (simp add: normalizeSpecConfigurationClustersCluster_pass Let_def lt cd2 res)
    moreover have "replica_table ?cl'' = replica_table cl'"
      using list_all2_same_replicas [OF same] by (simp add: replica_table_def res)
    ultimately show ?thesis by blast
  next
    case other
    from assms other have res: "cl' = cl\<lparr>cluster_Deployment := ?cd\<rparr>" and dn: "dn = Map.empty"
      by (auto simp: normalizeSpecConfigurationClustersCluster_pass Let_def)
    have "normalizeSpecConfigurationClustersCluster H K chi cl' = Inr (cl', dn)"
      using other
      by (simp add: normalizeSpecConfigurationClustersCluster_pass Let_def lt cd2 dn)
        (simp add: res)
    then show ?thesis by blast
  qed
qed

lemma clusters_pass_twice:
  assumes body: "\<And>c c' cdn. f c = Inr (c', cdn) \<Longrightarrow>
      \<exists>c''. f c' = Inr (c'', cdn) \<and> replica_table c'' = replica_table c'"
    and "clusters_pass f cs dn = Inr (cs', dn')"
  shows "\<exists>cs''. clusters_pass f cs' dn = Inr (cs'', dn')
       \<and> map replica_table cs'' = map replica_table cs'"
  using assms(2)
proof (induction cs arbitrary: dn cs' dn')
  case Nil
  then show ?case by simp
next
  case (Cons c cs)
  from Cons.prems obtain c1 cdn cs1 where
    step: "f c = Inr (c1, cdn)" and
    rest: "clusters_pass f cs (mergeAndReplaceWithBiggerValues dn cdn) = Inr (cs1, dn')" and
    res: "cs' = c1 # cs1"
    by (auto split: sum.splits prod.splits)
  from body [OF step] obtain c2 where
    step2: "f c1 = Inr (c2, cdn)" and same: "replica_table c2 = replica_table c1"
    by blast
  from Cons.IH [OF rest] obtain cs2 where
    rest2: "clusters_pass f cs1 (mergeAndReplaceWithBiggerValues dn cdn) = Inr (cs2, dn')"
    and sames: "map replica_table cs2 = map replica_table cs1"
    by blast
  have "clusters_pass f (c1 # cs1) dn = Inr (c2 # cs2, dn')"
    using step2 rest2 by simp
  then show ?case
    using res same sames by auto
qed

lemma normalizeDefaults_twice:
  "normalizeDefaults K (normalizeDefaults K chi) = normalizeDefaults K chi"
  by (simp add: normalizeDefaults_def normalizeSpecDefaultsDeploymentScenario_def
      normalizeSpecDefaultsReplicasUseFQDN_def)

lemma normalizeDefaults_with_clusters:
  "normalizeDefaults K (with_clusters chi cs) = with_clusters (normalizeDefaults K chi) cs"
  by (simp add: normalizeDefaults_def normalizeSpecDefaultsDeploymentScenario_def
      normalizeSpecDefaultsReplicasUseFQDN_def with_clusters_def)

lemma NormalizeCHI_twice:
  assumes "NormalizeCHI H K chi = Inr (chi1, dn1)"
  shows "\<exists>chi2. NormalizeCHI H K chi1 = Inr (chi2, dn1)
       \<and> map replica_table (installation_clusters chi2) =
          map replica_table (installation_clusters chi1)"
proof -
  let ?chi0 = "normalizeDefaults K chi"
  let ?f = "normalizeSpecConfigurationClustersCluster H K ?chi0"
  have pass: "clusters_pass ?f (installation_clusters chi) Map.empty
      = Inr (installation_clusters chi1, dn1)"
    and chi1: "chi1 = with_clusters ?chi0 (installation_clusters chi1)"
    using assms by (auto simp: NormalizeCHI_pass split: sum.splits prod.splits)
  have d: "normalizeDefaults K chi1 = chi1"
    by (subst (1 2) chi1) (simp add: normalizeDefaults_with_clusters normalizeDefaults_twice)
  have "same_scope chi1 ?chi0"
    by (subst chi1) simp
  then have f: "normalizeSpecConfigurationClustersCluster H K chi1 = ?f"
    by (rule normalizeSpecConfigurationClustersCluster_scope)
  from clusters_pass_twice [of ?f, OF _ pass] obtain cs2 where
    pass2: "clusters_pass ?f (installation_clusters chi1) Map.empty = Inr (cs2, dn1)"
    and same: "map replica_table cs2 = map replica_table (installation_clusters chi1)"
    using normalizeSpecConfigurationClustersCluster_twice by blast
  have "NormalizeCHI H K chi1 = Inr (with_clusters chi1 cs2, dn1)"
    using pass2 by (simp add: NormalizeCHI_pass d f)
  then show ?thesis
    using same by (intro exI [of _ "with_clusters chi1 cs2"]) simp
qed

section \<open>A run on a copy\<close>

lemma labels_equiv_Nil:
  "labels_equiv z z' \<Longrightarrow> (z = []) = (z' = [])"
  by (auto simp: labels_equiv_def)

lemma deploymentMergeFrom_equiv:
  assumes "deployment_equiv d d'" and "deployment_equiv s s'"
  shows "deployment_equiv (deploymentMergeFrom d (Some s)) (deploymentMergeFrom d' (Some s'))"
proof -
  have e: "(MatchLabels (Zone d) = []) = (MatchLabels (Zone d') = [])"
    using assms(1) by (simp add: deployment_equiv_def labels_equiv_Nil)
  have ds: "distinct (map fst (MatchLabels (Zone s)))" "distinct (map fst (MatchLabels (Zone s')))"
    using assms(2) by (simp_all add: deployment_equiv_def labels_equiv_def)
  show ?thesis
    using assms e
    by (simp add: deployment_equiv_def deploymentMergeFrom_fields zoneCopyFrom_labels [OF ds(1)]
        zoneCopyFrom_labels [OF ds(2)])
qed

lemma deployment_equiv_zero: "deployment_equiv zero_ChiDeployment zero_ChiDeployment"
  by (simp add: deployment_equiv_def labels_equiv_def zero_ChiDeployment_def)

lemma deploymentGenerateFingerprint_equiv:
  assumes "deployment_equiv d d'" and "Namespace chi = Namespace chi'" and "Name chi = Name chi'"
  shows "deploymentGenerateFingerprint H chi d = deploymentGenerateFingerprint H chi' d'"
proof -
  have "deploymentGenerateString d = deploymentGenerateString d'"
    by (rule deploymentGenerateString_cong)
      (use assms(1) in \<open>simp_all add: deployment_equiv_def labels_equiv_def\<close>)
  then show ?thesis
    using assms(2,3) by (simp add: deploymentGenerateFingerprint_def)
qed

lemma normalizeReplica_equiv:
  assumes "replica_equiv r r'" and "deployment_equiv sd sd'"
    and "Namespace chi = Namespace chi'" and "Name chi = Name chi'"
    and "normalizeReplica H chi sd r dn = (r1, dn1)"
  shows "\<exists>r1'. normalizeReplica H chi' sd' r' dn = (r1', dn1) \<and> replica_equiv r1 r1'"
proof -
  let ?d = "deploymentMergeFrom (replica_Deployment r) (Some sd)"
  let ?d' = "deploymentMergeFrom (replica_Deployment r') (Some sd')"
  have m: "deployment_equiv ?d ?d'"
    using assms(1,2) by (simp add: replica_equiv_def deploymentMergeFrom_equiv)
  have fp: "deploymentGenerateFingerprint H chi ?d = deploymentGenerateFingerprint H chi' ?d'"
    by (rule deploymentGenerateFingerprint_equiv [OF m assms(3,4)])
  show ?thesis
    using assms(5) m fp
    by (auto simp: normalizeReplica_def Let_def replica_equiv_def deployment_equiv_def)
qed

lemma replicas_pass_equiv:
  assumes "list_all2 replica_equiv rs rs'" and "deployment_equiv sd sd'"
    and "Namespace chi = Namespace chi'" and "Name chi = Name chi'"
    and "replicas_pass H chi sd rs dn = (rs1, dn1)"
  shows "\<exists>rs1'. replicas_pass H chi' sd' rs' dn = (rs1', dn1) \<and> list_all2 replica_equiv rs1 rs1'"
  using assms(1,5)
proof (induction rs rs' arbitrary: dn rs1 dn1 rule: list_all2_induct)
  case Nil
  then show ?case by simp
next
  case (Cons r rs r' rs')
  obtain r1 dn2 where step: "normalizeReplica H chi sd r dn = (r1, dn2)"
    by (cases "normalizeReplica H chi sd r dn")
  obtain rs2 dn3 where rest: "replicas_pass H chi sd rs dn2 = (rs2, dn3)"
    by (cases "replicas_pass H chi sd rs dn2")
  have res: "rs1 = r1 # rs2" "dn1 = dn3"
    using Cons.prems step rest by simp_all
  from normalizeReplica_equiv [OF Cons.hyps(1) assms(2,3,4) step] obtain r1' where
    step': "normalizeReplica H chi' sd' r' dn = (r1', dn2)" and e1: "replica_equiv r1 r1'"
    by blast
  from Cons.IH [OF rest] obtain rs2' where
    rest': "replicas_pass H chi' sd' rs' dn2 = (rs2', dn3)" and e2: "list_all2 replica_equiv rs2 rs2'"
    by blast
  show ?case
    using step' rest' e1 e2 res by simp
qed

lemma replicate_zero_equiv:
  "list_all2 replica_equiv (replicate n zero_ChiClusterLayoutShardReplica)
     (replicate n zero_ChiClusterLayoutShardReplica)"
  by (simp add: list_all2_conv_all_nth replica_equiv_def zero_ChiClusterLayoutShardReplica_def
      deployment_equiv_zero)

lemma standardLayoutShard_equiv:
  assumes "shard_equiv sh sh'"
    and "Namespace chi = Namespace chi'" and "Name chi = Name chi'"
    and "standardLayoutShard H K chi n sh dn = Inr (sh1, dn1)"
  shows "\<exists>sh1'. standardLayoutShard H K chi' n sh' dn = Inr (sh1', dn1) \<and> shard_equiv sh1 sh1'"
proof -
  let ?zs = "replicate (nat n) zero_ChiClusterLayoutShardReplica"
  from assms(4) obtain rs1 where nonneg: "\<not> n < 0" "\<not> maxLenReplicas K < n"
    and rp: "replicas_pass H chi (shard_Deployment sh) ?zs dn = (rs1, dn1)"
    and res: "sh1 = sh\<lparr>shard_ReplicasCount := n, InternalReplication := stringTrue K, Replicas := rs1\<rparr>"
    by (auto simp: standardLayoutShard_pass split: if_splits prod.splits)
  have sd: "deployment_equiv (shard_Deployment sh) (shard_Deployment sh')"
    using assms(1) by (simp add: shard_equiv_def)
  from replicas_pass_equiv [OF replicate_zero_equiv sd assms(2,3) rp] obtain rs1' where
    rp': "replicas_pass H chi' (shard_Deployment sh') ?zs dn = (rs1', dn1)"
    and e: "list_all2 replica_equiv rs1 rs1'"
    by blast
  show ?thesis
    using nonneg rp' e assms(1)
    by (simp add: standardLayoutShard_pass res shard_equiv_def)
qed

lemma advancedLayoutShard_equiv:
  assumes "shard_equiv sh sh'" and "deployment_equiv cd cd'"
    and "Namespace chi = Namespace chi'" and "Name chi = Name chi'"
    and "advancedLayoutShard H K chi cd sh dn = Inr (sh1, dn1)"
  shows "\<exists>sh1'. advancedLayoutShard H K chi' cd' sh' dn = Inr (sh1', dn1) \<and> shard_equiv sh1 sh1'"
proof -
  let ?sd = "deploymentMergeFrom (shard_Deployment sh) (Some cd)"
  let ?sd' = "deploymentMergeFrom (shard_Deployment sh') (Some cd')"
  let ?ir = "normalizeClusterAdvancedLayoutShardsInternalReplication K"
  have sd: "deployment_equiv ?sd ?sd'"
    using assms(1,2) by (simp add: shard_equiv_def deploymentMergeFrom_equiv)
  have dt: "DefinitionType sh' = DefinitionType sh"
    and cnt: "shard_ReplicasCount sh' = shard_ReplicasCount sh"
    and ir: "InternalReplication (?ir sh') = InternalReplication (?ir sh)"
    and rs: "list_all2 replica_equiv (Replicas sh) (Replicas sh')"
    using assms(1)
    by (simp_all add: shard_equiv_def normalizeClusterAdvancedLayoutShardsInternalReplication_def)
  have fields: "DefinitionType (?ir s) = DefinitionType s"
    "shard_ReplicasCount (?ir s) = shard_ReplicasCount s" for s
    by (simp_all add: normalizeClusterAdvancedLayoutShardsInternalReplication_def)
  show ?thesis
  proof (cases "DefinitionType sh = shardDefinitionTypeReplicasCount K")
    case True
    let ?zs = "replicate (nat (shard_ReplicasCount sh)) zero_ChiClusterLayoutShardReplica"
    from assms(5) True obtain rs1 where nonneg: "\<not> shard_ReplicasCount sh < 0"
        "\<not> maxLenReplicas K < shard_ReplicasCount sh"
      and rp: "replicas_pass H chi ?sd ?zs dn = (rs1, dn1)"
      and res: "sh1 = (?ir sh)\<lparr>shard_Deployment := ?sd, Replicas := rs1\<rparr>"
      by (auto simp: advancedLayoutShard_pass Let_def split: if_splits prod.splits)
    from replicas_pass_equiv [OF replicate_zero_equiv sd assms(3,4) rp] obtain rs1' where
      rp': "replicas_pass H chi' ?sd' ?zs dn = (rs1', dn1)"
      and e: "list_all2 replica_equiv rs1 rs1'"
      by blast
    show ?thesis
      using True nonneg rp' e sd ir
      by (simp add: advancedLayoutShard_pass Let_def res shard_equiv_def dt cnt fields)
  next
    case False
    from assms(5) False obtain rs1 where
      rp: "replicas_pass H chi ?sd (Replicas sh) dn = (rs1, dn1)"
      and res: "sh1 = (?ir sh)\<lparr>shard_Deployment := ?sd,
                  shard_ReplicasCount := int (length (Replicas sh)), Replicas := rs1\<rparr>"
      by (auto simp: advancedLayoutShard_pass Let_def split: if_splits prod.splits)
    from replicas_pass_equiv [OF rs sd assms(3,4) rp] obtain rs1' where
      rp': "replicas_pass H chi' ?sd' (Replicas sh') dn = (rs1', dn1)"
      and e: "list_all2 replica_equiv rs1 rs1'"
      by blast
    have len: "length (Replicas sh') = length (Replicas sh)"
      using rs by (simp add: list_all2_lengthD)
    show ?thesis
      using False rp' e sd ir
      by (simp add: advancedLayoutShard_pass Let_def res shard_equiv_def dt len fields)
  qed
qed

lemma shards_pass_equiv:
  assumes body: "\<And>sh sh' dn sh1 dn1. shard_equiv sh sh' \<Longrightarrow> f sh dn = Inr (sh1, dn1) \<Longrightarrow>
      \<exists>sh1'. f' sh' dn = Inr (sh1', dn1) \<and> shard_equiv sh1 sh1'"
    and "list_all2 shard_equiv shs shs'"
    and "shards_pass f shs dn = Inr (shs1, dn1)"
  shows "\<exists>shs1'. shards_pass f' shs' dn = Inr (shs1', dn1) \<and> list_all2 shard_equiv shs1 shs1'"
  using assms(2,3)
proof (induction shs shs' arbitrary: dn shs1 dn1 rule: list_all2_induct)
  case Nil
  then show ?case by simp
next
  case (Cons s ss s' ss')
  from Cons.prems obtain s1 dn2 ss1 where
    step: "f s dn = Inr (s1, dn2)" and
    rest: "shards_pass f ss dn2 = Inr (ss1, dn1)" and
    res: "shs1 = s1 # ss1"
    by (auto split: sum.splits prod.splits)
  from body [OF Cons.hyps(1) step] obtain s1' where
    step': "f' s' dn = Inr (s1', dn2)" and e1: "shard_equiv s1 s1'"
    by blast
  from Cons.IH [OF rest] obtain ss1' where
    rest': "shards_pass f' ss' dn2 = Inr (ss1', dn1)" and e2: "list_all2 shard_equiv ss1 ss1'"
    by blast
  show ?case
    using step' rest' e1 e2 res by simp
qed

lemma replicate_zero_shard_equiv:
  "list_all2 shard_equiv (replicate n zero_ChiClusterLayoutShard)
     (replicate n zero_ChiClusterLayoutShard)"
  by (simp add: list_all2_conv_all_nth shard_equiv_def zero_ChiClusterLayoutShard_def
      deployment_equiv_zero)

lemma normalizeSpecConfigurationClustersCluster_equiv:
  assumes "cluster_equiv cl cl'"
    and "Namespace chi = Namespace chi'" and "Name chi = Name chi'"
    and "deployment_equiv (defaults_Deployment (Defaults (Spec chi)))
           (defaults_Deployment (Defaults (Spec chi')))"
    and "normalizeSpecConfigurationClustersCluster H K chi cl = Inr (cl1, dn1)"
  shows "\<exists>cl1'. normalizeSpecConfigurationClustersCluster H K chi' cl' = Inr (cl1', dn1)
       \<and> cluster_equiv cl1 cl1'"
proof -
  let ?cd = "deploymentMergeFrom (cluster_Deployment cl)
               (Some (defaults_Deployment (Defaults (Spec chi))))"
  let ?cd' = "deploymentMergeFrom (cluster_Deployment cl')
               (Some (defaults_Deployment (Defaults (Spec chi'))))"
  have cd: "deployment_equiv ?cd ?cd'"
    using assms(1,4) by (simp add: cluster_equiv_def deploymentMergeFrom_equiv)
  have lt: "Type (Layout cl') = Type (Layout cl)"
    and shs: "list_all2 shard_equiv (Shards (Layout cl)) (Shards (Layout cl'))"
    using assms(1) by (simp_all add: cluster_equiv_def)
  let ?l = "normalizeClusterStandardLayoutCounts (Layout cl)"
  let ?l' = "normalizeClusterStandardLayoutCounts (Layout cl')"
  have counts: "ShardsCount ?l' = ShardsCount ?l" "ReplicasCount ?l' = ReplicasCount ?l"
    "Type ?l' = Type ?l"
    using assms(1) by (simp_all add: cluster_equiv_def normalizeClusterStandardLayoutCounts_def Let_def)
  consider (std) "Type (Layout cl) = clusterLayoutTypeStandard K"
    | (adv) "Type (Layout cl) \<noteq> clusterLayoutTypeStandard K"
        "Type (Layout cl) = clusterLayoutTypeAdvanced K"
    | (other) "Type (Layout cl) \<noteq> clusterLayoutTypeStandard K"
        "Type (Layout cl) \<noteq> clusterLayoutTypeAdvanced K"
    by blast
  then show ?thesis
  proof cases
    case std
    from assms(5) std obtain ss where
      nonneg: "\<not> ShardsCount ?l < 0" "\<not> maxLenShards K < ShardsCount ?l"
      and pass: "shards_pass (standardLayoutShard H K chi (ReplicasCount ?l))
          (replicate (nat (ShardsCount ?l)) zero_ChiClusterLayoutShard) Map.empty = Inr (ss, dn1)"
      and res: "cl1 = cl\<lparr>cluster_Deployment := ?cd, Layout := ?l\<lparr>Shards := ss\<rparr>\<rparr>"
      by (auto simp: normalizeSpecConfigurationClustersCluster_pass Let_def
          split: if_splits sum.splits prod.splits)
    from shards_pass_equiv [of "standardLayoutShard H K chi (ReplicasCount ?l)"
        "standardLayoutShard H K chi' (ReplicasCount ?l)", OF _ replicate_zero_shard_equiv pass]
    obtain ss' where
      pass': "shards_pass (standardLayoutShard H K chi' (ReplicasCount ?l))
          (replicate (nat (ShardsCount ?l)) zero_ChiClusterLayoutShard) Map.empty = Inr (ss', dn1)"
      and e: "list_all2 shard_equiv ss ss'"
      using standardLayoutShard_equiv [OF _ assms(2,3)] by blast
    show ?thesis
      using std nonneg pass' e cd counts
      by (simp add: normalizeSpecConfigurationClustersCluster_pass Let_def lt res cluster_equiv_def)
  next
    case adv
    from assms(5) adv obtain ss where
      pass: "shards_pass (advancedLayoutShard H K chi ?cd) (Shards (Layout cl)) Map.empty
          = Inr (ss, dn1)"
      and res: "cl1 = cl\<lparr>cluster_Deployment := ?cd, Layout := (Layout cl)\<lparr>Shards := ss\<rparr>\<rparr>"
      by (auto simp: normalizeSpecConfigurationClustersCluster_pass Let_def
          split: if_splits sum.splits prod.splits)
    from shards_pass_equiv [of "advancedLayoutShard H K chi ?cd"
        "advancedLayoutShard H K chi' ?cd'", OF _ shs pass]
    obtain ss' where
      pass': "shards_pass (advancedLayoutShard H K chi' ?cd') (Shards (Layout cl')) Map.empty
          = Inr (ss', dn1)"
      and e: "list_all2 shard_equiv ss ss'"
      using advancedLayoutShard_equiv [OF _ cd assms(2,3)] by blast
    show ?thesis
      using adv pass' e cd assms(1)
      by (simp add: normalizeSpecConfigurationClustersCluster_pass Let_def lt res cluster_equiv_def)
  next
    case other
    from assms(5) other have res: "cl1 = cl\<lparr>cluster_Deployment := ?cd\<rparr>" and dn: "dn1 = Map.empty"
      by (auto simp: normalizeSpecConfigurationClustersCluster_pass Let_def)
    show ?thesis
      using other cd assms(1)
      by (simp add: normalizeSpecConfigurationClustersCluster_pass Let_def lt res dn cluster_equiv_def)
  qed
qed

lemma clusters_pass_equiv:
  assumes body: "\<And>c c' c1 cdn. cluster_equiv c c' \<Longrightarrow> f c = Inr (c1, cdn) \<Longrightarrow>
      \<exists>c1'. f' c' = Inr (c1', cdn) \<and> cluster_equiv c1 c1'"
    and "list_all2 cluster_equiv cs cs'"
    and "clusters_pass f cs dn = Inr (cs1, dn1)"
  shows "\<exists>cs1'. clusters_pass f' cs' dn = Inr (cs1', dn1) \<and> list_all2 cluster_equiv cs1 cs1'"
  using assms(2,3)
proof (induction cs cs' arbitrary: dn cs1 dn1 rule: list_all2_induct)
  case Nil
  then show ?case by simp
next
  case (Cons c cs c' cs')
  from Cons.prems obtain c1 cdn cs2 where
    step: "f c = Inr (c1, cdn)" and
    rest: "clusters_pass f cs (mergeAndReplaceWithBiggerValues dn cdn) = Inr (cs2, dn1)" and
    res: "cs1 = c1 # cs2"
    by (auto split: sum.splits prod.splits)
  from body [OF Cons.hyps(1) step] obtain c1' where
    step': "f' c' = Inr (c1', cdn)" and e1: "cluster_equiv c1 c1'"
    by blast
  from Cons.IH [OF rest] obtain cs2' where
    rest': "clusters_pass f' cs' (mergeAndReplaceWithBiggerValues dn cdn) = Inr (cs2', dn1)"
    and e2: "list_all2 cluster_equiv cs2 cs2'"
    by blast
  show ?case
    using step' rest' e1 e2 res by simp
qed

lemma normalizeDefaults_fields:
  "Namespace (normalizeDefaults K chi) = Namespace chi"
  "Name (normalizeDefaults K chi) = Name chi"
  "ReplicasUseFQDN (Defaults (Spec (normalizeDefaults K chi))) =
     (if ReplicasUseFQDN (Defaults (Spec chi)) = 1 then 1 else 0)"
  "defaults_Deployment (Defaults (Spec (normalizeDefaults K chi))) =
     (if Scenario (defaults_Deployment (Defaults (Spec chi))) = []
      then (defaults_Deployment (Defaults (Spec chi)))\<lparr>Scenario := deploymentScenarioDefault K\<rparr>
      else defaults_Deployment (Defaults (Spec chi)))"
  by (simp_all add: normalizeDefaults_def normalizeSpecDefaultsDeploymentScenario_def
      normalizeSpecDefaultsReplicasUseFQDN_def)

lemma with_clusters_fields:
  "Namespace (with_clusters chi cs) = Namespace chi"
  "Name (with_clusters chi cs) = Name chi"
  "Defaults (Spec (with_clusters chi cs)) = Defaults (Spec chi)"
  by (simp_all add: with_clusters_def)

lemma NormalizeCHI_equiv:
  assumes "installation_equiv chi chi'"
    and "NormalizeCHI H K chi = Inr (chi1, dn1)"
  shows "\<exists>chi1'. NormalizeCHI H K chi' = Inr (chi1', dn1) \<and> installation_equiv chi1 chi1'"
proof -
  let ?c = "normalizeDefaults K chi" and ?c' = "normalizeDefaults K chi'"
  have ns: "Namespace ?c = Namespace ?c'" and nm: "Name ?c = Name ?c'"
    and fq: "ReplicasUseFQDN (Defaults (Spec ?c)) = ReplicasUseFQDN (Defaults (Spec ?c'))"
    and dd: "deployment_equiv (defaults_Deployment (Defaults (Spec ?c)))
               (defaults_Deployment (Defaults (Spec ?c')))"
    using assms(1)
    by (simp_all add: installation_equiv_def normalizeDefaults_fields deployment_equiv_def)
  have cs: "list_all2 cluster_equiv (installation_clusters chi) (installation_clusters chi')"
    using assms(1) by (simp add: installation_equiv_def)
  have pass: "clusters_pass (normalizeSpecConfigurationClustersCluster H K ?c)
      (installation_clusters chi) Map.empty = Inr (installation_clusters chi1, dn1)"
    and chi1: "chi1 = with_clusters ?c (installation_clusters chi1)"
    using assms(2) by (auto simp: NormalizeCHI_pass split: sum.splits prod.splits)
  from clusters_pass_equiv [of "normalizeSpecConfigurationClustersCluster H K ?c"
      "normalizeSpecConfigurationClustersCluster H K ?c'", OF _ cs pass]
  obtain cs1' where
    pass': "clusters_pass (normalizeSpecConfigurationClustersCluster H K ?c')
      (installation_clusters chi') Map.empty = Inr (cs1', dn1)"
    and e: "list_all2 cluster_equiv (installation_clusters chi1) cs1'"
    using normalizeSpecConfigurationClustersCluster_equiv [OF _ ns nm dd] by blast
  have "NormalizeCHI H K chi' = Inr (with_clusters ?c' cs1', dn1)"
    using pass' by (simp add: NormalizeCHI_pass)
  moreover have "installation_equiv chi1 (with_clusters ?c' cs1')"
    by (subst chi1) (use ns nm fq dd e in \<open>simp add: installation_equiv_def with_clusters_fields\<close>)
  ultimately show ?thesis by blast
qed

lemma installation_equiv_identity_table:
  assumes "installation_equiv chi chi'"
  shows "identity_table chi = identity_table chi'"
proof -
  have r: "map (\<lambda>r. (Fingerprint (replica_Deployment r), Index (replica_Deployment r))) rs =
           map (\<lambda>r. (Fingerprint (replica_Deployment r), Index (replica_Deployment r))) rs'"
    if "list_all2 replica_equiv rs rs'" for rs rs'
    using that
    by (induction rule: list_all2_induct) (simp_all add: replica_equiv_def deployment_equiv_def)
  have s: "map (\<lambda>sh. map (\<lambda>r. (Fingerprint (replica_Deployment r), Index (replica_Deployment r)))
                   (Replicas sh)) shs =
           map (\<lambda>sh. map (\<lambda>r. (Fingerprint (replica_Deployment r), Index (replica_Deployment r)))
                   (Replicas sh)) shs'"
    if "list_all2 shard_equiv shs shs'" for shs shs'
    using that
    by (induction rule: list_all2_induct) (simp_all add: shard_equiv_def r)
  have c: "map (\<lambda>c. map (\<lambda>sh. map (\<lambda>r. (Fingerprint (replica_Deployment r), Index (replica_Deployment r)))
                          (Replicas sh)) (Shards (Layout c))) cs =
           map (\<lambda>c. map (\<lambda>sh. map (\<lambda>r. (Fingerprint (replica_Deployment r), Index (replica_Deployment r)))
                          (Replicas sh)) (Shards (Layout c))) cs'"
    if "list_all2 cluster_equiv cs cs'" for cs cs'
    using that
    by (induction rule: list_all2_induct) (simp_all add: cluster_equiv_def s)
  show ?thesis
    unfolding identity_table_def
    by (rule c) (use assms in \<open>simp add: installation_equiv_def\<close>)
qed

section \<open>Normalization is idempotent and stable\<close>

text \<open>
  C8. If \<open>NormalizeCHI\<close> returns on an installation, then a second run on the tree it has
  produced returns too, with the same usage map, and leaves every replica of every shard of
  every cluster as the first run left it (same resolved deployment, same \<open>Fingerprint\<close>, same
  \<open>Index\<close>); and a run on any copy of the installation (equal field by field, the maps
  possibly visited in another order) returns the same usage map and gives every replica the
  same \<open>Fingerprint\<close> and \<open>Index\<close> as the first run.
\<close>

theorem normalization_idempotent:
  assumes "NormalizeCHI H K chi = Inr (chi1, dn1)"
  shows "(\<exists>chi2. NormalizeCHI H K chi1 = Inr (chi2, dn1)
            \<and> map replica_table (installation_clusters chi2) =
               map replica_table (installation_clusters chi1))
       \<and> (\<forall>chi'. installation_equiv chi chi' \<longrightarrow>
            (\<exists>chi1'. NormalizeCHI H K chi' = Inr (chi1', dn1)
               \<and> identity_table chi1' = identity_table chi1))"
proof (intro conjI allI impI)
  show "\<exists>chi2. NormalizeCHI H K chi1 = Inr (chi2, dn1)
            \<and> map replica_table (installation_clusters chi2) =
               map replica_table (installation_clusters chi1)"
    by (rule NormalizeCHI_twice [OF assms])
next
  fix chi'
  assume "installation_equiv chi chi'"
  from NormalizeCHI_equiv [OF this assms] obtain chi1' where
    "NormalizeCHI H K chi' = Inr (chi1', dn1)" and "installation_equiv chi1 chi1'"
    by blast
  then show "\<exists>chi1'. NormalizeCHI H K chi' = Inr (chi1', dn1)
               \<and> identity_table chi1' = identity_table chi1"
    using installation_equiv_identity_table [of chi1 chi1'] by auto
qed

theorem normalization_idempotent_witness:
  "(case NormalizeCHI plain_hash example_constants example_duplicates of
     Inl e \<Rightarrow> False
   | Inr (chi1, dn1) \<Rightarrow>
       dn1 ''nschip::v::s::::kind=ssd::zone=z1'' = Some 2 \<and>
       (case NormalizeCHI plain_hash example_constants chi1 of
          Inl e \<Rightarrow> False
        | Inr (chi2, dn2) \<Rightarrow>
            map replica_table (installation_clusters chi2) =
              map replica_table (installation_clusters chi1)
            \<and> dn2 = dn1) \<and>
       (case NormalizeCHI plain_hash example_constants example_duplicates_copy of
          Inl e \<Rightarrow> False
        | Inr (chi1', dn1') \<Rightarrow> identity_table chi1' = identity_table chi1 \<and> dn1' = dn1))
   \<and> installation_equiv example_duplicates example_duplicates_copy
   \<and> example_duplicates \<noteq> example_duplicates_copy"
proof -
  have run: "case NormalizeCHI plain_hash example_constants example_duplicates of
     Inl e \<Rightarrow> False
   | Inr (chi1, dn1) \<Rightarrow> dn1 ''nschip::v::s::::kind=ssd::zone=z1'' = Some 2"
    by code_simp
  then obtain chi1 dn1 where
    r: "NormalizeCHI plain_hash example_constants example_duplicates = Inr (chi1, dn1)"
    and u: "dn1 ''nschip::v::s::::kind=ssd::zone=z1'' = Some 2"
    by (auto split: sum.splits)
  have eq: "installation_equiv example_duplicates example_duplicates_copy"
    by (auto simp: installation_equiv_def cluster_equiv_def shard_equiv_def replica_equiv_def
        deployment_equiv_def labels_equiv_def example_duplicates_def example_duplicates_copy_def
        example_installation_def example_cluster_def example_shard_def example_replica_def
        example_deployment_def installation_clusters_def zero_ChiDeployment_def)
  have ne: "example_duplicates \<noteq> example_duplicates_copy"
    by (simp add: example_duplicates_def example_duplicates_copy_def
        example_installation_def example_cluster_def example_shard_def example_replica_def
        example_deployment_def)
  from normalization_idempotent [OF r] eq obtain chi2 chi1' where
    "NormalizeCHI plain_hash example_constants chi1 = Inr (chi2, dn1)"
    "map replica_table (installation_clusters chi2) =
       map replica_table (installation_clusters chi1)"
    "NormalizeCHI plain_hash example_constants example_duplicates_copy = Inr (chi1', dn1)"
    "identity_table chi1' = identity_table chi1"
    by blast
  then show ?thesis
    using r u eq ne by simp
qed

text \<open>
  The tree as a whole is not a fixed point of the normalization: a shard stored as
  \<open>Disabled\<close> reads \<open>false\<close> after the first run, and \<open>false\<close> is not the sentinel, so the
  second run sets it to \<open>true\<close>.
\<close>

lemma second_run_enables_internal_replication:
  "InternalReplication
     (normalizeClusterAdvancedLayoutShardsInternalReplication example_constants
        (example_shard ''Replicas'' 0 ''Disabled'' [])) = ''false''
   \<and> InternalReplication
     (normalizeClusterAdvancedLayoutShardsInternalReplication example_constants
        (normalizeClusterAdvancedLayoutShardsInternalReplication example_constants
           (example_shard ''Replicas'' 0 ''Disabled'' []))) = ''true''"
  by (simp add: normalizeClusterAdvancedLayoutShardsInternalReplication_def example_shard_def
      example_constants_def)

end
